theory Spec2Isabelle
  imports Complex_Main "HOL-Library.AList"
begin

section \<open>JavaScript values\<close>

text \<open>
  An optional string property is a \<open>string option\<close>: \<open>None\<close> is \<open>undefined\<close>
  (or \<open>null\<close>). JavaScript's truthiness of such a value: a string is truthy
  unless it is empty.
\<close>

definition truthy :: "string option \<Rightarrow> bool" where
  "truthy v = (case v of None \<Rightarrow> False | Some s \<Rightarrow> s \<noteq> [])"

text \<open>\<open>a || b\<close> on optional strings: the first operand when truthy, else the second.\<close>

definition js_or :: "string option \<Rightarrow> string option \<Rightarrow> string option" where
  "js_or a b = (if truthy a then a else b)"

text \<open>
  A thrown value. The code reads \<open>err.name\<close> and writes \<open>err.tokenKey\<close>, so an
  error is a record of these properties.
\<close>

record js_error =
  err_name :: string
  err_message :: string
  tokenKey :: "string option"

definition AuthSdkError :: "string \<Rightarrow> js_error" where
  "AuthSdkError msg = \<lparr>err_name = ''AuthSdkError'', err_message = msg, tokenKey = None\<rparr>"

definition TypeError :: "string \<Rightarrow> js_error" where
  "TypeError msg = \<lparr>err_name = ''TypeError'', err_message = msg, tokenKey = None\<rparr>"

section \<open>JavaScript numbers\<close>

text \<open>
  A JavaScript number is an IEEE 754 double: a finite value, an infinity
  (\<open>Infinity True\<close> is the positive one) or NaN. The finite values are the reals
  that rounding leaves as they are. The sign of zero is not kept: subtraction,
  comparison, \<open>Math.max\<close> and multiplication by a non-zero number, which is all
  the code below does with numbers, give the same results for both zeros up to
  the sign of a zero.
\<close>

datatype number = Finite real | Infinity bool | NaN

text \<open>
  The binary exponent used for \<open>a \<ge> 0\<close>: the largest \<open>e\<close> from 1023 down to -1022
  with \<open>2\<^sup>e \<le> a\<close>, and -1022 (the exponent of the subnormal numbers) when there
  is none.
\<close>

fun expo_from :: "nat \<Rightarrow> int \<Rightarrow> real \<Rightarrow> int" where
  "expo_from 0 e a = e"
| "expo_from (Suc n) e a = (if 2 powi e \<le> a then e else expo_from n (e - 1) a)"

definition expo :: "real \<Rightarrow> int" where
  "expo a = expo_from 2045 1023 a"

text \<open>The nearest integer, a tie going to the even one.\<close>

definition round_even :: "real \<Rightarrow> int" where
  "round_even m =
     (let f = \<lfloor>m\<rfloor>
      in if m - of_int f < 1 / 2 then f
         else if 1 / 2 < m - of_int f then f + 1
         else if even f then f else f + 1)"

text \<open>The distance between neighbouring doubles around \<open>x\<close>: 53 significant bits.\<close>

definition ulp :: "real \<Rightarrow> real" where
  "ulp x = 2 powi (expo \<bar>x\<bar> - 52)"

definition nearest :: "real \<Rightarrow> real" where
  "nearest x = of_int (round_even (x / ulp x)) * ulp x"

text \<open>
  The result of an arithmetic operation whose exact value is \<open>x\<close>: rounded to
  the nearest double, ties to even, and to an infinity from \<open>2\<^sup>1\<^sup>0\<^sup>2\<^sup>4\<close> on.
\<close>

definition round64 :: "real \<Rightarrow> number" where
  "round64 x =
     (let y = nearest x
      in if 2 powi 1024 \<le> \<bar>y\<bar> then Infinity (0 < y) else Finite y)"

text \<open>\<open>x - y\<close>.\<close>

fun num_sub :: "number \<Rightarrow> number \<Rightarrow> number" where
  "num_sub (Finite a) (Finite b) = round64 (a - b)"
| "num_sub (Finite a) (Infinity t) = Infinity (\<not> t)"
| "num_sub (Infinity s) (Finite b) = Infinity s"
| "num_sub (Infinity s) (Infinity t) = (if s = t then NaN else Infinity s)"
| "num_sub NaN y = NaN"
| "num_sub x NaN = NaN"

text \<open>\<open>x * y\<close>.\<close>

fun num_mul :: "number \<Rightarrow> number \<Rightarrow> number" where
  "num_mul (Finite a) (Finite b) = round64 (a * b)"
| "num_mul (Finite a) (Infinity t) = (if a = 0 then NaN else Infinity (t = (0 < a)))"
| "num_mul (Infinity s) (Finite b) = (if b = 0 then NaN else Infinity (s = (0 < b)))"
| "num_mul (Infinity s) (Infinity t) = Infinity (s = t)"
| "num_mul NaN y = NaN"
| "num_mul x NaN = NaN"

text \<open>\<open>x <= y\<close>: false when either side is NaN.\<close>

fun num_le :: "number \<Rightarrow> number \<Rightarrow> bool" where
  "num_le (Finite a) (Finite b) = (a \<le> b)"
| "num_le (Finite a) (Infinity t) = t"
| "num_le (Infinity s) (Finite b) = (\<not> s)"
| "num_le (Infinity s) (Infinity t) = (\<not> s \<or> t)"
| "num_le NaN y = False"
| "num_le x NaN = False"

text \<open>\<open>Math.max(x, y)\<close>: NaN when either argument is NaN.\<close>

definition num_max :: "number \<Rightarrow> number \<Rightarrow> number" where
  "num_max x y = (if x = NaN \<or> y = NaN then NaN else if num_le x y then y else x)"

text \<open>\<open>!x\<close> for a number: true for zero and for NaN.\<close>

fun num_falsy :: "number \<Rightarrow> bool" where
  "num_falsy (Finite a) = (a = 0)"
| "num_falsy (Infinity s) = False"
| "num_falsy NaN = True"

text \<open>The value of an optional number in arithmetic: \<open>undefined\<close> counts as NaN.\<close>

definition to_number :: "number option \<Rightarrow> number" where
  "to_number v = (case v of None \<Rightarrow> NaN | Some x \<Rightarrow> x)"

section \<open>Tokens\<close>

text \<open>
  A \<open>Token\<close> object. Every property may be missing at run time; \<open>scopes\<close> is an
  array (truthy when present, also when empty) and \<open>expiresAt\<close> a number of
  seconds.
\<close>

record Token =
  idToken :: "string option"
  accessToken :: "string option"
  refreshToken :: "string option"
  scopes :: "string list option"
  expiresAt :: "number option"

text \<open>The token bag \<open>Tokens\<close> of \<open>setTokens\<close>, \<open>getTokens\<close> and the token endpoint.\<close>

record Tokens =
  bag_accessToken :: "Token option"
  bag_idToken :: "Token option"
  bag_refreshToken :: "Token option"

section \<open>The interaction orchestrator (src/lib/idx/run.ts)\<close>

datatype IdxStatus = PENDING | SUCCESS | FAILURE | TERMINAL | CANCELED

datatype IdxFeature = PASSWORD_RECOVERY | REGISTRATION | SOCIAL_IDP

record IdxRemediation =
  rem_name :: string

record RawIdxState =
  stateHandle :: "string option"

text \<open>
  \<open>actions\<close> lists the names under which the response's action map holds a
  (truthy) action.
\<close>

record IdxResponse =
  actions :: "string list"
  neededToProceed :: "IdxRemediation list"
  interactionCode :: "string option"
  rawIdxState :: RawIdxState

record NextStep =
  step_name :: string

record TransactionMeta =
  interactionHandle :: "string option"
  meta_sso :: "bool option"
  clientId :: "string option"
  codeVerifier :: "string option"
  ignoreSignature :: "bool option"
  redirectUri :: "string option"
  urls :: "string option"
  meta_scopes :: "string list option"

record InteractResponse =
  ir_interactionHandle :: "string option"
  ir_meta :: "TransactionMeta option"

text \<open>What \<open>remediate\<close> resolves to; \<open>run\<close> reads these five properties.\<close>

record RemediationResponse =
  rr_idxResponse :: "IdxResponse option"
  rr_nextStep :: "NextStep option"
  terminal :: bool
  canceled :: bool
  rr_messages :: "string list option"

record FlowMonitor =
  isFinished :: "js_error + bool"

record RunOptions =
  flow :: "string option"
  state :: "string option"
  opt_scopes :: "string list option"
  remediators :: "string list option"
  flowMonitor :: "FlowMonitor option"
  opt_actions :: "string list option"
  sso :: "bool option"

record ExchangeArgs =
  x_interactionCode :: "string option"
  x_clientId :: "string option"
  x_codeVerifier :: "string option"
  x_ignoreSignature :: "bool option"
  x_redirectUri :: "string option"
  x_scopes :: "string list option"

record TokenResponse =
  resp_tokens :: "Tokens option"

text \<open>
  The collaborators of \<open>run\<close> are not part of the orchestrator: the saved
  transaction meta, the \<open>interact\<close>, \<open>introspect\<close> and token endpoints, the
  remediation resolver and the registry of remediator classes. Each is a
  function that returns a value or throws (\<open>Inl\<close>).
\<close>

record run_env =
  getSavedTransactionMeta :: "string option \<Rightarrow> js_error + TransactionMeta option"
  interact :: "bool option \<Rightarrow> string option \<Rightarrow> string list option \<Rightarrow> js_error + InteractResponse"
  introspect :: "bool option \<Rightarrow> string option \<Rightarrow> js_error + IdxResponse"
  remediate :: "IdxResponse \<Rightarrow> string option \<Rightarrow> RunOptions \<Rightarrow> js_error + RemediationResponse"
  exchangeCodeForTokens :: "ExchangeArgs \<Rightarrow> string option \<Rightarrow> js_error + TokenResponse"
  remediatorMap :: "string \<Rightarrow> (IdxRemediation \<Rightarrow> NextStep) option"

text \<open>The calls \<open>run\<close> makes on the auth client and its collaborators, in order.\<close>

datatype call =
    SetFlow string
  | TransactionClear "bool option"
  | Interact
  | Introspect
  | Remediate
  | SaveIdxResponse RawIdxState
  | IsFinished
  | ExchangeCodeForTokens ExchangeArgs

definition getEnabledFeatures :: "IdxResponse \<Rightarrow> IdxFeature list" where
  "getEnabledFeatures idxResponse =
     (if ''currentAuthenticator-recover'' \<in> set (actions idxResponse)
      then [PASSWORD_RECOVERY] else [])
     @ (if list_ex (\<lambda>r. rem_name r = ''select-enroll-profile'') (neededToProceed idxResponse)
        then [REGISTRATION] else [])
     @ (if list_ex (\<lambda>r. rem_name r = ''redirect-idp'') (neededToProceed idxResponse)
        then [SOCIAL_IDP] else [])"

fun getAvailableSteps :: "run_env \<Rightarrow> IdxRemediation list \<Rightarrow> NextStep list" where
  "getAvailableSteps env [] = []"
| "getAvailableSteps env (remediation # remediations) =
     (case remediatorMap env (rem_name remediation) of
        None \<Rightarrow> getAvailableSteps env remediations
      | Some T \<Rightarrow> T remediation # getAvailableSteps env remediations)"

text \<open>The local variables of \<open>run\<close>; they keep their values when the body throws.\<close>

record run_locals =
  l_tokens :: "TokenResponse option"
  l_nextStep :: "NextStep option"
  l_messages :: "string list option"
  l_meta :: "TransactionMeta option"
  l_enabledFeatures :: "IdxFeature list option"
  l_availableSteps :: "NextStep list option"
  l_status :: IdxStatus
  l_shouldClearTransaction :: bool
  l_clearSharedStorage :: bool
  l_idxResponse :: "IdxResponse option"

definition run_init :: run_locals where
  "run_init = \<lparr>l_tokens = None, l_nextStep = None, l_messages = None, l_meta = None,
     l_enabledFeatures = None, l_availableSteps = None, l_status = PENDING,
     l_shouldClearTransaction = False, l_clearSharedStorage = True, l_idxResponse = None\<rparr>"

text \<open>
  Lines 104--121: set the flow, then resume the saved transaction or start a new
  one. The result is \<open>metaFromResp\<close> and \<open>interactionHandle\<close>.
\<close>

definition run_start ::
  "run_env \<Rightarrow> RunOptions \<Rightarrow> (js_error + TransactionMeta option \<times> string option) \<times> call list" where
  "run_start env options =
     (let cs0 = (case flow options of
                    Some f \<Rightarrow> (if f \<noteq> [] then [SetFlow f] else [])
                  | None \<Rightarrow> [])
      in case getSavedTransactionMeta env (state options) of
           Inl e \<Rightarrow> (Inl e, cs0)
         | Inr metaFromResp \<Rightarrow>
             (let handle =
                    (case metaFromResp of None \<Rightarrow> None | Some m \<Rightarrow> interactionHandle m)
              in if \<not> truthy handle
                 then (case interact env (sso options) (state options) (opt_scopes options) of
                         Inl e \<Rightarrow> (Inl e, cs0 @ [TransactionClear None, Interact])
                       | Inr interactResponse \<Rightarrow>
                           (Inr (ir_meta interactResponse, ir_interactionHandle interactResponse),
                            cs0 @ [TransactionClear None, Interact]))
                 else (Inr (metaFromResp, handle), cs0)))"

text \<open>
  Lines 155--188: the status resolution after \<open>remediate\<close> has answered. The
  \<open>canceled\<close> test is its own \<open>if\<close> statement, not an \<open>else if\<close> of the
  \<open>terminal\<close> test.
\<close>

definition run_resolve ::
  "run_env \<Rightarrow> RunOptions \<Rightarrow> TransactionMeta option \<Rightarrow> RemediationResponse \<Rightarrow> run_locals \<Rightarrow>
   js_error option \<times> run_locals \<times> call list" where
  "run_resolve env options metaFromResp r v0 =
     (let v1 = (if terminal r
                then v0\<lparr>l_status := TERMINAL, l_shouldClearTransaction := True,
                        l_clearSharedStorage := False\<rparr>
                else v0)
      in if canceled r
         then (None, v1\<lparr>l_status := CANCELED, l_shouldClearTransaction := True\<rparr>, [])
         else if truthy (case rr_idxResponse r of None \<Rightarrow> None | Some i \<Rightarrow> interactionCode i)
         then (case flowMonitor options of
                 None \<Rightarrow> (Some (TypeError ''Cannot read properties of undefined''), v1, [])
               | Some fm \<Rightarrow>
                  (case isFinished fm of
                     Inl e \<Rightarrow> (Some e, v1, [IsFinished])
                   | Inr finished \<Rightarrow>
                      if \<not> finished
                      then (Some (AuthSdkError
                              ''Current flow is not supported, check policy settings in your org.''),
                            v1, [IsFinished])
                      else (case metaFromResp of
                              None \<Rightarrow>
                                (Some (TypeError ''Cannot destructure undefined''), v1, [IsFinished])
                            | Some m \<Rightarrow>
                               (let args = \<lparr>x_interactionCode =
                                              (case rr_idxResponse r of
                                                 None \<Rightarrow> None | Some i \<Rightarrow> interactionCode i),
                                            x_clientId = clientId m,
                                            x_codeVerifier = codeVerifier m,
                                            x_ignoreSignature = ignoreSignature m,
                                            x_redirectUri = redirectUri m,
                                            x_scopes = meta_scopes m\<rparr>
                                in case exchangeCodeForTokens env args (urls m) of
                                     Inl e \<Rightarrow>
                                       (Some e, v1, [IsFinished, ExchangeCodeForTokens args])
                                   | Inr t \<Rightarrow>
                                       (None,
                                        v1\<lparr>l_tokens := Some t, l_status := SUCCESS,
                                           l_shouldClearTransaction := True\<rparr>,
                                        [IsFinished, ExchangeCodeForTokens args])))))
         else (None, v1, []))"

text \<open>Lines 126--189: the branch after introspection.\<close>

definition run_branch ::
  "run_env \<Rightarrow> RunOptions \<Rightarrow> TransactionMeta option \<Rightarrow> IdxResponse \<Rightarrow> run_locals \<Rightarrow>
   js_error option \<times> run_locals \<times> call list" where
  "run_branch env options metaFromResp idxResponse v0 =
     (if remediators options = None \<and> opt_actions options = None
      then (None,
            v0\<lparr>l_meta := metaFromResp,
               l_enabledFeatures := Some (getEnabledFeatures idxResponse),
               l_availableSteps := Some (getAvailableSteps env (neededToProceed idxResponse))\<rparr>,
            [])
      else (case remediate env idxResponse (stateHandle (rawIdxState idxResponse)) options of
              Inl e \<Rightarrow> (Some e, v0, [Remediate])
            | Inr r \<Rightarrow>
               (let v1 = v0\<lparr>l_nextStep := rr_nextStep r, l_messages := rr_messages r\<rparr>;
                    save = (case (rr_nextStep r, rr_idxResponse r) of
                              (Some _, Some i) \<Rightarrow> [SaveIdxResponse (rawIdxState i)]
                            | _ \<Rightarrow> [])
                in case run_resolve env options metaFromResp r v1 of
                     (err, v2, cs) \<Rightarrow> (err, v2, Remediate # save @ cs))))"

text \<open>Lines 102--194: the body of the \<open>try\<close> statement.\<close>

definition run_try :: "run_env \<Rightarrow> RunOptions \<Rightarrow> js_error option \<times> run_locals \<times> call list" where
  "run_try env options =
     (case run_start env options of
        (Inl e, cs0) \<Rightarrow> (Some e, run_init, cs0)
      | (Inr (metaFromResp, handle), cs0) \<Rightarrow>
         (case introspect env
                 (case metaFromResp of None \<Rightarrow> None | Some m \<Rightarrow> meta_sso m) handle of
            Inl e \<Rightarrow> (Some e, run_init, cs0 @ [Introspect])
          | Inr idxResponse \<Rightarrow>
             (case run_branch env options metaFromResp idxResponse
                     (run_init\<lparr>l_idxResponse := Some idxResponse\<rparr>) of
                (err, v, cs) \<Rightarrow> (err, v, cs0 @ [Introspect] @ cs))))"

record IdxTransaction =
  tx_idxResponse :: "IdxResponse option"
  status :: IdxStatus
  tx_meta :: "TransactionMeta option"
  enabledFeatures :: "IdxFeature list option"
  availableSteps :: "NextStep list option"
  tx_tokens :: "Tokens option"
  nextStep :: "NextStep option"
  messages :: "string list option"
  error :: "js_error option"

text \<open>
  \<open>run\<close>: the \<open>catch\<close> clause turns a thrown error into status FAILURE, then the
  transaction is cleared when asked for and the result object is built. The
  second component is the sequence of calls made. (A caller that passes no
  options passes \<open>{sso: true}\<close>.)
\<close>

definition run :: "run_env \<Rightarrow> RunOptions \<Rightarrow> IdxTransaction \<times> call list" where
  "run env options =
     (case run_try env options of
        (err, v, cs) \<Rightarrow>
          (let v' = (case err of
                       None \<Rightarrow> v
                     | Some e \<Rightarrow> v\<lparr>l_status := FAILURE, l_shouldClearTransaction := True\<rparr>)
           in (\<lparr>tx_idxResponse = l_idxResponse v',
                status = l_status v',
                tx_meta = l_meta v',
                enabledFeatures = l_enabledFeatures v',
                availableSteps = l_availableSteps v',
                tx_tokens = (case l_tokens v' of None \<Rightarrow> None | Some t \<Rightarrow> resp_tokens t),
                nextStep = l_nextStep v',
                messages = l_messages v',
                error = err\<rparr>,
               cs @ (if l_shouldClearTransaction v'
                      then [TransactionClear (Some (l_clearSharedStorage v'))] else []))))"

text \<open>Whether a call sequence holds a token exchange.\<close>

definition exchanged :: "call list \<Rightarrow> bool" where
  "exchanged cs = list_ex (\<lambda>c. case c of ExchangeCodeForTokens _ \<Rightarrow> True | _ \<Rightarrow> False) cs"

section \<open>The verify-authenticator remediator (VerifyAuthenticator)\<close>

record Authenticator =
  auth_type :: string

record VerifyAuthenticatorValues =
  verificationCode :: "string option"
  password :: "string option"
  otp :: "string option"

text \<open>
  A remediator object: \<open>vals\<close> is the property \<open>values\<close> of the class, \<open>bound\<close>
  the authenticator its remediation relates to.
\<close>

record VerifyAuthenticator =
  vals :: VerifyAuthenticatorValues
  bound :: Authenticator

text \<open>
  Modelled from the spec: \<open>getAuthenticator\<close> belongs to the base class
  \<open>Remediator\<close>, which is not among the sources. The spec calls its result the
  authenticator bound to the remediation.
\<close>

definition getAuthenticator :: "VerifyAuthenticator \<Rightarrow> Authenticator" where
  "getAuthenticator this = bound this"

definition canRemediate :: "VerifyAuthenticator \<Rightarrow> bool" where
  "canRemediate this =
     (let challengeType = auth_type (getAuthenticator this)
      in if challengeType = ''password''
         then truthy (password (vals this))
         else truthy (js_or (verificationCode (vals this)) (otp (vals this))))"

text \<open>A value is supplied when the property holds a non-empty string.\<close>

definition supplied :: "string option \<Rightarrow> bool" where
  "supplied v = (\<exists>s. v = Some s \<and> s \<noteq> [])"

section \<open>The token manager (TokenManager)\<close>

subsection \<open>State\<close>

text \<open>
  A JavaScript object used as a dictionary is an association list in insertion
  order with distinct keys: \<open>map_of\<close> reads a property, \<open>AList.update\<close> assigns
  one (in place when the key exists, at the end otherwise), \<open>AList.delete\<close> is
  \<open>delete\<close>. (Keys that look like array indices, which JavaScript enumerates
  first, are not used as storage keys here.)
\<close>

datatype event =
    EXPIRED string Token
  | RENEWED string "Token option" "Token option"
  | ADDED string Token
  | REMOVED string "Token option"
  | ERROR js_error

text \<open>
  A pending \<open>setTimeout\<close> of \<open>setExpireEventTimeout\<close>: the wait in milliseconds
  and the key and token its callback passes to \<open>emitExpired\<close>.
\<close>

record timer =
  expireEventWait :: number
  timer_key :: string
  timer_token :: Token

record TokenManagerOptions =
  autoRenew :: bool
  autoRemove :: bool
  expireEarlySeconds :: number
  storageKey :: string
  storageEventDelay :: number

text \<open>
  The request that \<open>_renewToken\<close> sends: a refresh grant for the old token's
  scopes when storage holds a refresh token, a plain renewal otherwise; or
  none, when reading the tokens threw.
\<close>

datatype request =
    RenewWithRefresh "string list option" Token
  | RenewPlain Token
  | GetTokensFailed js_error

record renew_job =
  job_key :: string
  job_token :: Token
  job_request :: request

datatype promise_state = Pending | Fulfilled "Token option" | Rejected js_error

text \<open>A callback scheduled by the storage listener: its delay and the two values it captured.\<close>

record storage_task =
  task_delay :: number
  task_newValue :: "string option"
  task_oldValue :: "string option"

text \<open>
  The parts of the SDK and of the platform that the token manager calls and
  that are not among the sources: \<open>sdk.features.isLocalhost()\<close>, the two
  renewal calls of \<open>sdk.token\<close>, \<open>JSON.parse\<close> (\<open>None\<close> when it throws or yields
  a falsy value) and \<open>JSON.stringify\<close> on token storage, and the three default
  storage keys and the storage name of \<open>./constants\<close>.
\<close>

record sdk =
  isLocalhost :: bool
  renewTokensWithRefresh :: "string list option \<Rightarrow> Token \<Rightarrow> js_error + Tokens"
  tokenRenew :: "Token \<Rightarrow> js_error + Token"
  jsonParse :: "string \<Rightarrow> (string \<times> Token) list option"
  jsonStringify :: "Token \<Rightarrow> string"
  ID_TOKEN_STORAGE_KEY :: string
  ACCESS_TOKEN_STORAGE_KEY :: string
  REFRESH_TOKEN_STORAGE_KEY :: string
  TOKEN_STORAGE_NAME :: string

text \<open>
  The state the functions of the token manager share: \<open>tokenMgmtRef\<close> (clock,
  options, emitter, \<open>expireTimeouts\<close>, \<open>renewPromise\<close>), the token storage, the
  queue \<open>renewTimeQueue\<close> of the constructor, and what the run-time system
  holds: the promises created by \<open>renew\<close> with the renewal each one waits for,
  the renewal requests started, the warnings printed, the callbacks called and
  the callbacks scheduled by the storage listener. The emitter is the list of
  events emitted so far. \<open>storageFault\<close> is the error \<open>storage.getStorage()\<close> throws,
  if it throws.
\<close>

record tm_state =
  clock_now :: number
  tm_options :: TokenManagerOptions
  emitted :: "event list"
  expireTimeouts :: "(string \<times> timer) list"
  renewPromise :: "(string \<times> nat) list"
  tokenStorage :: "(string \<times> Token) list"
  storageFault :: "js_error option"
  renewTimeQueue :: "int list"
  promises :: "(nat \<times> promise_state) list"
  jobs :: "(nat \<times> renew_job) list"
  nextPromise :: nat
  transport :: "request list"
  warnings :: "string list"
  callbacks :: "(string \<times> string \<times> Token option) list"
  scheduled :: "storage_task list"

text \<open>
  Modelled from the spec: the storage adapter is not among the sources. By its
  contract \<open>getStorage()\<close> returns the mapping last written by \<open>setStorage\<close>, and
  \<open>clearStorage()\<close> empties it. The code provides for \<open>getStorage()\<close> throwing
  (lines 131--138 and 333--340), which is the case \<open>storageFault st \<noteq> None\<close>.
\<close>

definition getStorage :: "tm_state \<Rightarrow> js_error + (string \<times> Token) list" where
  "getStorage st = (case storageFault st of Some e \<Rightarrow> Inl e | None \<Rightarrow> Inr (tokenStorage st))"

definition setStorage :: "tm_state \<Rightarrow> (string \<times> Token) list \<Rightarrow> tm_state" where
  "setStorage st ts = st\<lparr>tokenStorage := ts\<rparr>"

definition clearStorage :: "tm_state \<Rightarrow> tm_state" where
  "clearStorage st = st\<lparr>tokenStorage := []\<rparr>"

text \<open>
  Modelled from the spec: the kind predicates of \<open>./types\<close> and \<open>isObject\<close> of
  \<open>./util\<close> are not among the sources. A token is recognised as an id, access
  or refresh token by the property of that name; the value \<open>undefined\<close>
  (\<open>None\<close>) is not an object, every token record is.
\<close>

definition isIDToken :: "Token \<Rightarrow> bool" where
  "isIDToken obj = truthy (idToken obj)"

definition isAccessToken :: "Token \<Rightarrow> bool" where
  "isAccessToken obj = truthy (accessToken obj)"

definition isRefreshToken :: "Token \<Rightarrow> bool" where
  "isRefreshToken obj = truthy (refreshToken obj)"

definition isObject :: "Token option \<Rightarrow> bool" where
  "isObject obj = (obj \<noteq> None)"

subsection \<open>Expiry and events\<close>

text \<open>\<open>token.expiresAt - expireEarlySeconds\<close>.\<close>

definition getExpireTime :: "tm_state \<Rightarrow> Token \<Rightarrow> number" where
  "getExpireTime st token =
     num_sub (to_number (expiresAt token)) (expireEarlySeconds (tm_options st))"

definition hasExpired :: "tm_state \<Rightarrow> Token \<Rightarrow> bool" where
  "hasExpired st token =
     (let expireTime = getExpireTime st token
      in num_le expireTime (clock_now st))"

definition emit :: "tm_state \<Rightarrow> event \<Rightarrow> tm_state" where
  "emit st ev = st\<lparr>emitted := emitted st @ [ev]\<rparr>"

definition emitRenewed :: "tm_state \<Rightarrow> string \<Rightarrow> Token option \<Rightarrow> Token option \<Rightarrow> tm_state" where
  "emitRenewed st key freshToken oldToken = emit st (RENEWED key freshToken oldToken)"

definition emitAdded :: "tm_state \<Rightarrow> string \<Rightarrow> Token \<Rightarrow> tm_state" where
  "emitAdded st key token = emit st (ADDED key token)"

definition emitRemoved :: "tm_state \<Rightarrow> string \<Rightarrow> Token option \<Rightarrow> tm_state" where
  "emitRemoved st key token = emit st (REMOVED key token)"

definition emitError :: "tm_state \<Rightarrow> js_error \<Rightarrow> tm_state" where
  "emitError st e = emit st (ERROR e)"

definition clearExpireEventTimeout :: "tm_state \<Rightarrow> string \<Rightarrow> tm_state" where
  "clearExpireEventTimeout st key =
     st\<lparr>expireTimeouts := AList.delete key (expireTimeouts st),
        renewPromise := AList.delete key (renewPromise st)\<rparr>"

definition clearExpireEventTimeoutAll :: "tm_state \<Rightarrow> tm_state" where
  "clearExpireEventTimeoutAll st =
     fold (\<lambda>key s. clearExpireEventTimeout s key) (map fst (expireTimeouts st)) st"

text \<open>
  The timer that \<open>setExpireEventTimeout\<close> creates (lines 116--117 and 122--124):
  it waits \<open>max(expireTime - now, 0) * 1000\<close> milliseconds.
\<close>

definition expireTimer :: "tm_state \<Rightarrow> string \<Rightarrow> Token \<Rightarrow> timer" where
  "expireTimer st key token =
     (let expireTime = getExpireTime st token;
          expireEventWait =
            num_mul (num_max (num_sub expireTime (clock_now st)) (Finite 0)) (Finite 1000)
      in \<lparr>expireEventWait = expireEventWait, timer_key = key, timer_token = token\<rparr>)"

definition setExpireEventTimeout :: "tm_state \<Rightarrow> string \<Rightarrow> Token \<Rightarrow> tm_state" where
  "setExpireEventTimeout st key token =
     (let expireEventTimeout = expireTimer st key token;
          st1 = clearExpireEventTimeout st key
      in st1\<lparr>expireTimeouts := AList.update key expireEventTimeout (expireTimeouts st1)\<rparr>)"

definition setExpireEventTimeoutAll :: "tm_state \<Rightarrow> tm_state" where
  "setExpireEventTimeoutAll st =
     (case getStorage st of
        Inl e \<Rightarrow> emitError st e
      | Inr ts \<Rightarrow> fold (\<lambda>(key, token) s. setExpireEventTimeout s key token) ts st)"

definition resetExpireEventTimeoutAll :: "tm_state \<Rightarrow> tm_state" where
  "resetExpireEventTimeoutAll st = setExpireEventTimeoutAll (clearExpireEventTimeoutAll st)"

subsection \<open>Adding, reading and removing tokens\<close>

text \<open>\<open>validateToken\<close>: the error it throws, if any.\<close>

fun validateToken :: "Token option \<Rightarrow> js_error option" where
  "validateToken None =
     (if \<not> isObject None
      then Some (AuthSdkError
        ''Token must be an Object with scopes, expiresAt, and one of: an idToken, accessToken, or refreshToken property'')
      else None)"
| "validateToken (Some token) =
     (if \<not> isObject (Some token) \<or>
         scopes token = None \<or>
         ((case expiresAt token of None \<Rightarrow> True | Some x \<Rightarrow> num_falsy x) \<and>
          expiresAt token \<noteq> Some (Finite 0)) \<or>
         (\<not> isIDToken token \<and> \<not> isAccessToken token \<and> \<not> isRefreshToken token)
      then Some (AuthSdkError
        ''Token must be an Object with scopes, expiresAt, and one of: an idToken, accessToken, or refreshToken property'')
      else None)"

text \<open>
  \<open>_add\<close>. The result is the error thrown, if any, and the state reached. For
  \<open>undefined\<close> the validation throws, so nothing follows it.
\<close>

fun internal_add :: "tm_state \<Rightarrow> string \<Rightarrow> Token option \<Rightarrow> js_error option \<times> tm_state" where
  "internal_add st key None =
     (case getStorage st of
        Inl e \<Rightarrow> (Some e, st)
      | Inr ts \<Rightarrow> (validateToken None, st))"
| "internal_add st key (Some token) =
     (case getStorage st of
        Inl e \<Rightarrow> (Some e, st)
      | Inr ts \<Rightarrow>
         (case validateToken (Some token) of
            Some e \<Rightarrow> (Some e, st)
          | None \<Rightarrow>
             (let st1 = setStorage st (AList.update key token ts);
                  st2 = emitAdded st1 key token
              in (None, setExpireEventTimeout st2 key token))))"

definition warn :: "tm_state \<Rightarrow> string \<Rightarrow> tm_state" where
  "warn st text = st\<lparr>warnings := warnings st @ [text]\<rparr>"

definition add :: "sdk \<Rightarrow> tm_state \<Rightarrow> string \<Rightarrow> Token option \<Rightarrow> js_error option \<times> tm_state" where
  "add sdk st key token =
     internal_add
       (if isLocalhost sdk
        then warn st
               (''Use setTokens() instead if you want to add a set of tokens at same time.''
                @ [CHR 0x0A]
                @ ''It prevents current tab from emitting unnecessary StorageEvent,''
                @ [CHR 0x0A]
                @ ''which may cause false-positive authState change cross tabs.'')
        else st)
       key token"

definition get :: "tm_state \<Rightarrow> string \<Rightarrow> js_error + Token option" where
  "get st key = (case getStorage st of Inl e \<Rightarrow> Inl e | Inr ts \<Rightarrow> Inr (map_of ts key))"

definition getKeyByType :: "tm_state \<Rightarrow> string \<Rightarrow> js_error + string option" where
  "getKeyByType st type =
     (case getStorage st of
        Inl e \<Rightarrow> Inl e
      | Inr ts \<Rightarrow>
         Inr (case filter (\<lambda>(key, token).
                       (isAccessToken token \<and> type = ''accessToken'')
                     \<or> (isIDToken token \<and> type = ''idToken'')
                     \<or> (isRefreshToken token \<and> type = ''refreshToken'')) ts of
                [] \<Rightarrow> None
              | (key, token) # rest \<Rightarrow> Some key))"

definition getTokens :: "tm_state \<Rightarrow> js_error + Tokens" where
  "getTokens st =
     (case getStorage st of
        Inl e \<Rightarrow> Inl e
      | Inr ts \<Rightarrow>
         Inr (fold (\<lambda>(key, token) tokens.
                      if isAccessToken token then tokens\<lparr>bag_accessToken := Some token\<rparr>
                      else if isIDToken token then tokens\<lparr>bag_idToken := Some token\<rparr>
                      else if isRefreshToken token then tokens\<lparr>bag_refreshToken := Some token\<rparr>
                      else tokens)
                ts \<lparr>bag_accessToken = None, bag_idToken = None, bag_refreshToken = None\<rparr>))"

definition remove :: "tm_state \<Rightarrow> string \<Rightarrow> js_error option \<times> tm_state" where
  "remove st key =
     (let st1 = clearExpireEventTimeout st key
      in case getStorage st1 of
           Inl e \<Rightarrow> (Some e, st1)
         | Inr ts \<Rightarrow>
            (let removedToken = map_of ts key;
                 st2 = setStorage st1 (AList.delete key ts)
             in (None, emitRemoved st2 key removedToken)))"

definition clear :: "tm_state \<Rightarrow> tm_state" where
  "clear st = clearStorage (clearExpireEventTimeoutAll st)"

subsection \<open>setTokens\<close>

text \<open>\<open>k || d\<close> for the key found by \<open>getKeyByType\<close> and its default.\<close>

definition keyOrDefault :: "string option \<Rightarrow> string \<Rightarrow> string" where
  "keyOrDefault k d = (case k of None \<Rightarrow> d | Some s \<Rightarrow> if s \<noteq> [] then s else d)"

text \<open>
  An optional callback is the name under which its calls are recorded, or
  \<open>None\<close> when the caller passed none.
\<close>

definition callCb :: "tm_state \<Rightarrow> string option \<Rightarrow> string \<Rightarrow> Token option \<Rightarrow> tm_state" where
  "callCb st tokenCb key token =
     (case tokenCb of
        None \<Rightarrow> st
      | Some cb \<Rightarrow> st\<lparr>callbacks := callbacks st @ [(cb, key, token)]\<rparr>)"

definition handleAdded :: "tm_state \<Rightarrow> string \<Rightarrow> Token \<Rightarrow> string option \<Rightarrow> tm_state" where
  "handleAdded st key token tokenCb =
     callCb (setExpireEventTimeout (emitAdded st key token) key token) tokenCb key (Some token)"

definition handleRemoved :: "tm_state \<Rightarrow> string \<Rightarrow> Token \<Rightarrow> string option \<Rightarrow> tm_state" where
  "handleRemoved st key token tokenCb =
     callCb (emitRemoved (clearExpireEventTimeout st key) key (Some token)) tokenCb key (Some token)"

text \<open>
  One of the three \<open>if ... else if\<close> statements at the end of \<open>setTokens\<close>: the
  token of the bag, and the token of that kind in \<open>existingTokens\<close>.
\<close>

definition handleKind ::
  "tm_state \<Rightarrow> string \<Rightarrow> Token option \<Rightarrow> Token option \<Rightarrow> string option \<Rightarrow> tm_state" where
  "handleKind st key token existing tokenCb =
     (case token of
        Some t \<Rightarrow> handleAdded st key t tokenCb
      | None \<Rightarrow>
         (case existing of
            Some old \<Rightarrow> handleRemoved st key old tokenCb
          | None \<Rightarrow> st))"

text \<open>The object literal of lines 269--273: three optional properties, set in this order.\<close>

definition spreadTokens ::
  "string \<Rightarrow> Token option \<Rightarrow> string \<Rightarrow> Token option \<Rightarrow> string \<Rightarrow> Token option \<Rightarrow>
   (string \<times> Token) list" where
  "spreadTokens idTokenKey idTok accessTokenKey accessTok refreshTokenKey refreshTok =
     (let o1 = (case idTok of None \<Rightarrow> [] | Some t \<Rightarrow> AList.update idTokenKey t []);
          o2 = (case accessTok of None \<Rightarrow> o1 | Some t \<Rightarrow> AList.update accessTokenKey t o1)
      in case refreshTok of None \<Rightarrow> o2 | Some t \<Rightarrow> AList.update refreshTokenKey t o2)"

text \<open>
  \<open>setTokens\<close>. \<open>existingTokens\<close> is read from storage after \<open>setStorage\<close> has
  replaced its content.
\<close>

definition setTokens ::
  "sdk \<Rightarrow> tm_state \<Rightarrow> Tokens \<Rightarrow> string option \<Rightarrow> string option \<Rightarrow> string option \<Rightarrow>
   js_error option \<times> tm_state" where
  "setTokens sdk st bag accessTokenCb idTokenCb refreshTokenCb =
     (case (case bag_idToken bag of None \<Rightarrow> None | Some t \<Rightarrow> validateToken (Some t)) of
        Some e \<Rightarrow> (Some e, st)
      | None \<Rightarrow>
     (case (case bag_accessToken bag of None \<Rightarrow> None | Some t \<Rightarrow> validateToken (Some t)) of
        Some e \<Rightarrow> (Some e, st)
      | None \<Rightarrow>
     (case getKeyByType st ''idToken'' of
        Inl e \<Rightarrow> (Some e, st)
      | Inr k1 \<Rightarrow>
     (case getKeyByType st ''accessToken'' of
        Inl e \<Rightarrow> (Some e, st)
      | Inr k2 \<Rightarrow>
     (case getKeyByType st ''refreshToken'' of
        Inl e \<Rightarrow> (Some e, st)
      | Inr k3 \<Rightarrow>
         (let idTokenKey = keyOrDefault k1 (ID_TOKEN_STORAGE_KEY sdk);
              accessTokenKey = keyOrDefault k2 (ACCESS_TOKEN_STORAGE_KEY sdk);
              refreshTokenKey = keyOrDefault k3 (REFRESH_TOKEN_STORAGE_KEY sdk);
              st1 = setStorage st
                      (spreadTokens idTokenKey (bag_idToken bag)
                         accessTokenKey (bag_accessToken bag)
                         refreshTokenKey (bag_refreshToken bag))
          in case getTokens st1 of
               Inl e \<Rightarrow> (Some e, st1)
             | Inr existingTokens \<Rightarrow>
                (let st2 = handleKind st1 idTokenKey (bag_idToken bag)
                             (bag_idToken existingTokens) idTokenCb;
                     st3 = handleKind st2 accessTokenKey (bag_accessToken bag)
                             (bag_accessToken existingTokens) accessTokenCb
                 in (None,
                     handleKind st3 refreshTokenKey (bag_refreshToken bag)
                       (bag_refreshToken existingTokens) refreshTokenCb))))))))"

subsection \<open>Renewal\<close>

text \<open>
  \<open>_renewToken\<close> in two halves. The executor of \<open>getTokens()\<close> reads storage
  during the call, which decides the request; the request then runs and its
  answer is picked apart when it arrives. The SDK's two renewal calls are
  functions of their arguments.
\<close>

definition renewToken_request :: "tm_state \<Rightarrow> Token \<Rightarrow> request" where
  "renewToken_request st token =
     (case getTokens st of
        Inl e \<Rightarrow> GetTokensFailed e
      | Inr tokens \<Rightarrow>
         (case bag_refreshToken tokens of
            Some refreshTokenObject \<Rightarrow> RenewWithRefresh (scopes token) refreshTokenObject
          | None \<Rightarrow> RenewPlain token))"

definition renewToken_result :: "sdk \<Rightarrow> Token \<Rightarrow> request \<Rightarrow> js_error + Token option" where
  "renewToken_result sdk token req =
     (case req of
        GetTokensFailed e \<Rightarrow> Inl e
      | RenewWithRefresh sc refreshTokenObject \<Rightarrow>
         (case renewTokensWithRefresh sdk sc refreshTokenObject of
            Inl e \<Rightarrow> Inl e
          | Inr freshTokens \<Rightarrow>
             Inr (if isIDToken token then bag_idToken freshTokens else bag_accessToken freshTokens))
      | RenewPlain t \<Rightarrow>
         (case tokenRenew sdk t of Inl e \<Rightarrow> Inl e | Inr fresh \<Rightarrow> Inr (Some fresh)))"

text \<open>
  \<open>renew\<close>, the synchronous part: the promise returned and the state reached.
  An existing promise for the key is returned as it is. Otherwise the token is
  looked up (a failure gives a new rejected promise, which is not stored), the
  key's timer is cleared, and a new pending promise is stored under the key
  with the renewal it waits for.
\<close>

definition renew :: "sdk \<Rightarrow> tm_state \<Rightarrow> string \<Rightarrow> nat \<times> tm_state" where
  "renew sdk st key =
     (case map_of (renewPromise st) key of
        Some existingPromise \<Rightarrow> (existingPromise, st)
      | None \<Rightarrow>
         (case (case get st key of
                  Inl e \<Rightarrow> Inl e
                | Inr None \<Rightarrow>
                    Inl (AuthSdkError (''The tokenManager has no token for the key: '' @ key))
                | Inr (Some token) \<Rightarrow> Inr token) of
            Inl e \<Rightarrow>
              (nextPromise st,
               st\<lparr>promises := AList.update (nextPromise st) (Rejected e) (promises st),
                  nextPromise := Suc (nextPromise st)\<rparr>)
          | Inr token \<Rightarrow>
              (let st1 = clearExpireEventTimeout st key;
                   req = renewToken_request st1 token;
                   p = nextPromise st1
               in (p,
                   st1\<lparr>promises := AList.update p Pending (promises st1),
                       jobs := AList.update p
                                 \<lparr>job_key = key, job_token = token, job_request = req\<rparr> (jobs st1),
                       nextPromise := Suc p,
                       transport := transport st1 @ [req],
                       renewPromise := AList.update key p (renewPromise st1)\<rparr>))))"

text \<open>The \<open>then\<close> handler of lines 348--355: the value it returns or the error it throws.\<close>

definition renew_then ::
  "tm_state \<Rightarrow> string \<Rightarrow> Token option \<Rightarrow> (js_error + Token option) \<times> tm_state" where
  "renew_then st key freshToken =
     (case getStorage st of
        Inl e \<Rightarrow> (Inl e, st)
      | Inr oldTokenStorage \<Rightarrow>
         (case remove st key of
            (Some e, st1) \<Rightarrow> (Inl e, st1)
          | (None, st1) \<Rightarrow>
             (case internal_add st1 key freshToken of
                (Some e, st2) \<Rightarrow> (Inl e, st2)
              | (None, st2) \<Rightarrow>
                 (Inr freshToken, emitRenewed st2 key freshToken (map_of oldTokenStorage key)))))"

text \<open>The \<open>catch\<close> handler of lines 356--376: the error it throws, and the state.\<close>

definition renew_catch :: "tm_state \<Rightarrow> string \<Rightarrow> js_error \<Rightarrow> js_error \<times> tm_state" where
  "renew_catch st key err =
     (if err_name err = ''OAuthError'' \<or> err_name err = ''AuthSdkError''
      then (case getStorage st of
              Inl e \<Rightarrow> (e, st)
            | Inr ts \<Rightarrow>
               (let st1 =
                      (case map_of ts key of
                         None \<Rightarrow> emitRemoved st key None
                       | Some currentToken \<Rightarrow>
                          if hasExpired st currentToken
                          then emitRemoved
                                 (setStorage (clearExpireEventTimeout st key) (AList.delete key ts))
                                 key (Some currentToken)
                          else emitRemoved st key None);
                    err1 = err\<lparr>tokenKey := Some key\<rparr>
                in (err1, emitError st1 err1)))
      else (err, st))"

text \<open>
  The renewal behind promise \<open>p\<close> settles: the answer of the request goes
  through the \<open>then\<close>, \<open>catch\<close> and \<open>finally\<close> handlers of \<open>renew\<close>, and the promise
  is fulfilled or rejected. A promise with no renewal behind it stays as it is.
\<close>

definition settleRenew :: "sdk \<Rightarrow> tm_state \<Rightarrow> nat \<Rightarrow> tm_state" where
  "settleRenew sdk st p =
     (case map_of (jobs st) p of
        None \<Rightarrow> st
      | Some job \<Rightarrow>
         (let key = job_key job;
              afterThen =
                (case renewToken_result sdk (job_token job) (job_request job) of
                   Inl err \<Rightarrow> (Inl err, st)
                 | Inr freshToken \<Rightarrow> renew_then st key freshToken);
              afterCatch =
                (case afterThen of
                   (Inr freshToken, st1) \<Rightarrow> (Fulfilled freshToken, st1)
                 | (Inl err, st1) \<Rightarrow>
                    (case renew_catch st1 key err of (err1, st2) \<Rightarrow> (Rejected err1, st2)))
          in case afterCatch of
               (settled, st3) \<Rightarrow>
                 st3\<lparr>renewPromise := AList.delete key (renewPromise st3),
                     jobs := AList.delete p (jobs st3),
                     promises := AList.update p settled (promises st3)\<rparr>))"

subsection \<open>Automatic renewal and its throttle\<close>

text \<open>
  \<open>shouldThrottleRenew\<close>, with the reading of \<open>Date.now()\<close> as an argument: the
  answer and the queue it leaves.
\<close>

definition shouldThrottleRenew :: "int list \<Rightarrow> int \<Rightarrow> bool \<times> int list" where
  "shouldThrottleRenew queue dateNow =
     (let pushed = queue @ [dateNow]
      in if length pushed \<ge> 10
         then (case pushed of
                 [] \<Rightarrow> (False, pushed)
               | firstTime # rest \<Rightarrow> (last rest - firstTime < 30 * 1000, rest))
         else (False, pushed))"

text \<open>
  \<open>onTokenExpiredHandler\<close>, the listener of the event \<open>expired\<close>. The rejection
  of the promise of \<open>renew\<close> is swallowed; an error thrown by \<open>remove\<close> is not.
\<close>

definition onTokenExpiredHandler ::
  "sdk \<Rightarrow> tm_state \<Rightarrow> string \<Rightarrow> int \<Rightarrow> js_error option \<times> tm_state" where
  "onTokenExpiredHandler sdk st key dateNow =
     (if autoRenew (tm_options st)
      then (case shouldThrottleRenew (renewTimeQueue st) dateNow of
              (throttle, queue) \<Rightarrow>
                (let st1 = st\<lparr>renewTimeQueue := queue\<rparr>
                 in if throttle
                    then (None, emitError st1 (AuthSdkError ''Too many token renew requests''))
                    else (None, snd (renew sdk st1 key))))
      else if autoRemove (tm_options st)
      then remove st key
      else (None, st))"

text \<open>\<open>emitExpired\<close>: the event is emitted and its listener runs.\<close>

definition emitExpired ::
  "sdk \<Rightarrow> tm_state \<Rightarrow> string \<Rightarrow> Token \<Rightarrow> int \<Rightarrow> js_error option \<times> tm_state" where
  "emitExpired sdk st key token dateNow =
     onTokenExpiredHandler sdk (emit st (EXPIRED key token)) key dateNow"

text \<open>A run of expiry events, each with its key and its reading of \<open>Date.now()\<close>.\<close>

fun expiredEvents :: "sdk \<Rightarrow> tm_state \<Rightarrow> (string \<times> int) list \<Rightarrow> tm_state" where
  "expiredEvents sdk st [] = st"
| "expiredEvents sdk st ((key, dateNow) # rest) =
     expiredEvents sdk (snd (onTokenExpiredHandler sdk st key dateNow)) rest"

subsection \<open>Changes made in other tabs\<close>

definition getTokensFromStorageValue :: "sdk \<Rightarrow> string option \<Rightarrow> (string \<times> Token) list" where
  "getTokensFromStorageValue sdk v =
     (case v of
        None \<Rightarrow> []
      | Some s \<Rightarrow> (case jsonParse sdk s of None \<Rightarrow> [] | Some tokens \<Rightarrow> tokens))"

definition emitEventsForCrossTabsStorageUpdate ::
  "sdk \<Rightarrow> tm_state \<Rightarrow> string option \<Rightarrow> string option \<Rightarrow> tm_state" where
  "emitEventsForCrossTabsStorageUpdate sdk st newValue oldValue =
     (let oldTokens = getTokensFromStorageValue sdk oldValue;
          newTokens = getTokensFromStorageValue sdk newValue;
          st1 = fold (\<lambda>key s.
                        case map_of newTokens key of
                          None \<Rightarrow> s
                        | Some newToken \<Rightarrow>
                           if map_option (jsonStringify sdk) (map_of oldTokens key)
                                \<noteq> Some (jsonStringify sdk newToken)
                           then emitAdded s key newToken else s)
                  (map fst newTokens) st
      in fold (\<lambda>key s.
                 case map_of newTokens key of
                   None \<Rightarrow> emitRemoved s key (map_of oldTokens key)
                 | Some newToken \<Rightarrow> s)
           (map fst oldTokens) st1)"

record StorageEvent =
  ev_key :: "string option"
  newValue :: "string option"
  oldValue :: "string option"

definition handleCrossTabsStorageChange ::
  "sdk \<Rightarrow> tm_state \<Rightarrow> string option \<Rightarrow> string option \<Rightarrow> tm_state" where
  "handleCrossTabsStorageChange sdk st new old =
     emitEventsForCrossTabsStorageUpdate sdk (resetExpireEventTimeoutAll st) new old"

text \<open>
  The listener of the window's \<open>storage\<close> event (lines 505--522): it returns
  at once, or schedules \<open>handleCrossTabsStorageChange\<close> after the configured delay.
\<close>

definition storageListener :: "tm_state \<Rightarrow> StorageEvent \<Rightarrow> tm_state" where
  "storageListener st ev =
     (if truthy (ev_key ev) \<and>
         (ev_key ev \<noteq> Some (storageKey (tm_options st)) \<or> newValue ev = oldValue ev)
      then st
      else st\<lparr>scheduled := scheduled st @
                [\<lparr>task_delay = storageEventDelay (tm_options st),
                  task_newValue = newValue ev, task_oldValue = oldValue ev\<rparr>]\<rparr>)"

text \<open>The oldest scheduled callback runs.\<close>

definition runScheduled :: "sdk \<Rightarrow> tm_state \<Rightarrow> tm_state" where
  "runScheduled sdk st =
     (case scheduled st of
        [] \<Rightarrow> st
      | task # rest \<Rightarrow>
         handleCrossTabsStorageChange sdk (st\<lparr>scheduled := rest\<rparr>)
           (task_newValue task) (task_oldValue task))"

subsection \<open>Calls on the manager\<close>

text \<open>
  The calls considered when several of them follow each other: \<open>add\<close>,
  \<open>remove\<close> and \<open>renew\<close> with their arguments, and the settling of the renewal
  behind a promise. \<open>performs\<close> makes the calls of a list in turn.
\<close>

datatype tm_call = Add string "Token option" | Remove string | Renew string | Settle nat

definition perform :: "sdk \<Rightarrow> tm_state \<Rightarrow> tm_call \<Rightarrow> tm_state" where
  "perform sdk st c =
     (case c of
        Add k token \<Rightarrow> snd (add sdk st k token)
      | Remove k \<Rightarrow> snd (remove st k)
      | Renew k \<Rightarrow> snd (renew sdk st k)
      | Settle q \<Rightarrow> settleRenew sdk st q)"

fun performs :: "sdk \<Rightarrow> tm_state \<Rightarrow> tm_call list \<Rightarrow> tm_state" where
  "performs sdk st [] = st"
| "performs sdk st (c # cs) = performs sdk (perform sdk st c) cs"

text \<open>\<open>DEFAULT_OPTIONS\<close> (lines 34--41), for the options this model keeps.\<close>

definition DEFAULT_OPTIONS :: "sdk \<Rightarrow> TokenManagerOptions" where
  "DEFAULT_OPTIONS sdk = \<lparr>autoRenew = True, autoRemove = True, expireEarlySeconds = Finite 30,
     storageKey = TOKEN_STORAGE_NAME sdk, storageEventDelay = Finite 0\<rparr>"

section \<open>Notions used in the properties\<close>

text \<open>The event is an \<open>added\<close> event.\<close>

definition is_added :: "event \<Rightarrow> bool" where
  "is_added ev = (case ev of ADDED _ _ \<Rightarrow> True | _ \<Rightarrow> False)"

text \<open>Consecutive timestamps (milliseconds) are more than 30 seconds apart.\<close>

fun spaced :: "int list \<Rightarrow> bool" where
  "spaced [] = True"
| "spaced [t] = True"
| "spaced (t # u # ts) = (u - t > 30 * 1000 \<and> spaced (u # ts))"

text \<open>
  The call is made for the key: \<open>add\<close>, \<open>remove\<close> or \<open>renew\<close> with that key, or the
  settling of a renewal that was started for that key.
\<close>

definition concerns :: "tm_state \<Rightarrow> tm_call \<Rightarrow> string \<Rightarrow> bool" where
  "concerns st c key =
     (case c of
        Add k token \<Rightarrow> k = key
      | Remove k \<Rightarrow> k = key
      | Renew k \<Rightarrow> k = key
      | Settle q \<Rightarrow> (case map_of (jobs st) q of None \<Rightarrow> False | Some job \<Rightarrow> job_key job = key))"

text \<open>None of the calls of the list, made in turn from \<open>st\<close>, is made for the key.\<close>

fun elsewhere :: "sdk \<Rightarrow> string \<Rightarrow> tm_state \<Rightarrow> tm_call list \<Rightarrow> bool" where
  "elsewhere sdk key st [] = True"
| "elsewhere sdk key st (c # cs) =
     (\<not> concerns st c key \<and> elsewhere sdk key (perform sdk st c) cs)"

text \<open>
  The renewal for the key is in flight behind promise \<open>p\<close>, and \<open>p\<close> is the promise
  stored for the key: \<open>p\<close> is pending and waits for a renewal started for the key.
\<close>

definition registered :: "string \<Rightarrow> nat \<Rightarrow> tm_state \<Rightarrow> bool" where
  "registered key p s =
     (map_of (renewPromise s) key = Some p
      \<and> map_of (promises s) p = Some Pending
      \<and> (case map_of (jobs s) p of None \<Rightarrow> False | Some job \<Rightarrow> job_key job = key)
      \<and> p < nextPromise s)"

text \<open>
  From \<open>s\<close> to \<open>s'\<close> the promise stored for the key, the promises, the renewals
  they wait for and the requests started are the same.
\<close>

definition keeps :: "string \<Rightarrow> tm_state \<Rightarrow> tm_state \<Rightarrow> bool" where
  "keeps key s s' =
     (map_of (renewPromise s') key = map_of (renewPromise s) key
      \<and> jobs s' = jobs s \<and> promises s' = promises s \<and> nextPromise s' = nextPromise s
      \<and> transport s' = transport s)"

text \<open>
  The events of a change made in another tab, read off the two token bags: \<open>added\<close> for
  each key of the new bag whose serialized token differs from the old one, then
  \<open>removed\<close> for each key of the old bag that the new bag lacks.
\<close>

definition addedDiff :: "sdk \<Rightarrow> (string \<times> Token) list \<Rightarrow> (string \<times> Token) list \<Rightarrow> event list" where
  "addedDiff sdk newTokens oldTokens =
     [ADDED key newToken.
        (key, newToken) \<leftarrow> newTokens,
        map_option (jsonStringify sdk) (map_of oldTokens key)
          \<noteq> Some (jsonStringify sdk newToken)]"

definition removedDiff :: "(string \<times> Token) list \<Rightarrow> (string \<times> Token) list \<Rightarrow> event list" where
  "removedDiff newTokens oldTokens =
     [REMOVED key (Some oldToken).
        (key, oldToken) \<leftarrow> oldTokens, map_of newTokens key = None]"

section \<open>Concrete inputs\<close>

definition ex_meta :: TransactionMeta where
  "ex_meta = \<lparr>interactionHandle = Some ''handle'', meta_sso = Some True,
     clientId = Some ''client'', codeVerifier = Some ''verifier'', ignoreSignature = None,
     redirectUri = Some ''uri'', urls = None, meta_scopes = Some [''openid'']\<rparr>"

definition ex_idx :: "string option \<Rightarrow> IdxResponse" where
  "ex_idx code = \<lparr>actions = [], neededToProceed = [], interactionCode = code,
     rawIdxState = \<lparr>stateHandle = Some ''sh''\<rparr>\<rparr>"

text \<open>A remediation result with the given \<open>terminal\<close>, \<open>canceled\<close> and interaction code.\<close>

definition ex_rr :: "bool \<Rightarrow> bool \<Rightarrow> string option \<Rightarrow> RemediationResponse" where
  "ex_rr t c code = \<lparr>rr_idxResponse = Some (ex_idx code), rr_nextStep = None, terminal = t,
     canceled = c, rr_messages = None\<rparr>"

text \<open>A saved transaction exists, introspection answers, and \<open>remediate\<close> resolves to \<open>r\<close>.\<close>

definition ex_env :: "RemediationResponse \<Rightarrow> run_env" where
  "ex_env r = \<lparr>getSavedTransactionMeta = (\<lambda>_. Inr (Some ex_meta)),
     interact = (\<lambda>_ _ _. Inl (AuthSdkError ''offline'')),
     introspect = (\<lambda>_ _. Inr (ex_idx None)),
     remediate = (\<lambda>_ _ _. Inr r),
     exchangeCodeForTokens = (\<lambda>_ _. Inr \<lparr>resp_tokens = None\<rparr>),
     remediatorMap = (\<lambda>_. None)\<rparr>"

text \<open>Options of a flow whose monitor's \<open>isFinished()\<close> resolves to \<open>fin\<close>.\<close>

definition ex_options :: "bool \<Rightarrow> RunOptions" where
  "ex_options fin = \<lparr>flow = Some ''authenticate'', state = None, opt_scopes = None,
     remediators = Some [''identify''], flowMonitor = Some \<lparr>isFinished = Inr fin\<rparr>,
     opt_actions = None, sso = Some True\<rparr>"

definition ex_remediator :: "string \<Rightarrow> VerifyAuthenticatorValues \<Rightarrow> VerifyAuthenticator" where
  "ex_remediator ty vs = \<lparr>vals = vs, bound = \<lparr>auth_type = ty\<rparr>\<rparr>"

definition ex_sdk :: sdk where
  "ex_sdk = \<lparr>isLocalhost = False,
     renewTokensWithRefresh = (\<lambda>sc r. Inl (AuthSdkError ''no refresh'')),
     tokenRenew = (\<lambda>t. Inl \<lparr>err_name = ''OAuthError'', err_message = ''login_required'',
                           tokenKey = None\<rparr>),
     jsonParse = (\<lambda>s. None),
     jsonStringify = (\<lambda>t. []),
     ID_TOKEN_STORAGE_KEY = ''idToken'',
     ACCESS_TOKEN_STORAGE_KEY = ''accessToken'',
     REFRESH_TOKEN_STORAGE_KEY = ''refreshToken'',
     TOKEN_STORAGE_NAME = ''okta-token-storage''\<rparr>"

text \<open>A token manager with empty storage, at clock reading 1000.\<close>

definition ex_state :: tm_state where
  "ex_state = \<lparr>clock_now = Finite 1000, tm_options = DEFAULT_OPTIONS ex_sdk, emitted = [],
     expireTimeouts = [], renewPromise = [], tokenStorage = [], storageFault = None,
     renewTimeQueue = [], promises = [], jobs = [], nextPromise = 0, transport = [],
     warnings = [], callbacks = [], scheduled = []\<rparr>"

definition ex_idToken :: Token where
  "ex_idToken = \<lparr>idToken = Some ''id.jwt'', accessToken = None, refreshToken = None,
     scopes = Some [''openid''], expiresAt = Some (Finite 2000)\<rparr>"

definition ex_accessToken :: Token where
  "ex_accessToken = \<lparr>idToken = None, accessToken = Some ''access.jwt'', refreshToken = None,
     scopes = Some [''openid''], expiresAt = Some (Finite 2000)\<rparr>"

definition ex_bag2 :: Tokens where
  "ex_bag2 = \<lparr>bag_accessToken = Some ex_accessToken, bag_idToken = Some ex_idToken,
     bag_refreshToken = None\<rparr>"

definition ex_bag1 :: Tokens where
  "ex_bag1 = \<lparr>bag_accessToken = Some ex_accessToken, bag_idToken = None,
     bag_refreshToken = None\<rparr>"

text \<open>The manager with the access token stored under its default key.\<close>

definition ex_stored :: tm_state where
  "ex_stored = ex_state\<lparr>tokenStorage := [(''accessToken'', ex_accessToken)]\<rparr>"

text \<open>Nine expiry events for one key, one second apart.\<close>

definition ex_burst :: "(string \<times> int) list" where
  "ex_burst = [(''accessToken'', 0), (''accessToken'', 1000), (''accessToken'', 2000),
     (''accessToken'', 3000), (''accessToken'', 4000), (''accessToken'', 5000),
     (''accessToken'', 6000), (''accessToken'', 7000), (''accessToken'', 8000)]"

text \<open>The manager while the renewal of the stored access token is in flight, and later on.\<close>

definition ex_renewing :: tm_state where
  "ex_renewing = snd (renew ex_sdk ex_stored ''accessToken'')"

definition ex_renewing_late :: tm_state where
  "ex_renewing_late = ex_renewing\<lparr>clock_now := Finite 3000\<rparr>"

definition ex_oauth_error :: js_error where
  "ex_oauth_error = \<lparr>err_name = ''OAuthError'', err_message = ''login_required'',
     tokenKey = None\<rparr>"

text \<open>The manager with a timer left from an id token, and a storage event with a null key.\<close>

definition ex_stale :: tm_state where
  "ex_stale = ex_stored\<lparr>expireTimeouts :=
     [(''idToken'', \<lparr>expireEventWait = Finite 0, timer_key = ''idToken'',
                      timer_token = ex_idToken\<rparr>)]\<rparr>"

definition ex_event :: StorageEvent where
  "ex_event = \<lparr>ev_key = None, newValue = Some ''old'', oldValue = Some ''old''\<rparr>"

text \<open>
  A null-key event whose values differ, and a JSON reader under which \<open>old\<close> holds the id
  and the access token and \<open>new\<close> holds another access token only.
\<close>

definition ex_event_changed :: StorageEvent where
  "ex_event_changed = \<lparr>ev_key = None, newValue = Some ''new'', oldValue = Some ''old''\<rparr>"

definition ex_sdk_json :: sdk where
  "ex_sdk_json = ex_sdk\<lparr>
     jsonParse := (\<lambda>s. if s = ''old'' then Some [(''idToken'', ex_idToken),
                                                   (''accessToken'', ex_accessToken)]
                        else if s = ''new''
                        then Some [(''accessToken'', ex_accessToken\<lparr>accessToken := Some ''fresh.jwt''\<rparr>)]
                        else None),
     jsonStringify := (\<lambda>t. (case idToken t of None \<Rightarrow> [] | Some v \<Rightarrow> v) @ '';''
                          @ (case accessToken t of None \<Rightarrow> [] | Some v \<Rightarrow> v))\<rparr>"

text \<open>The manager at clock reading \<open>2\<^sup>5\<^sup>3\<close>, with \<open>expireEarlySeconds = 1\<close>.\<close>

definition ex_far :: tm_state where
  "ex_far = ex_state\<lparr>clock_now := Finite 9007199254740992,
     tm_options := (DEFAULT_OPTIONS ex_sdk)\<lparr>expireEarlySeconds := Finite 1\<rparr>\<rparr>"

text \<open>Calls for the id token's key: it is added, renewed (promise 1), the renewal fails, it is removed.\<close>

definition ex_calls :: "tm_call list" where
  "ex_calls = [Add ''idToken'' (Some ex_idToken), Renew ''idToken'', Settle 1,
     Remove ''idToken'']"

section \<open>Properties of the orchestrator\<close>

lemmas run_defs = run_def run_try_def run_branch_def run_resolve_def run_start_def run_init_def
  truthy_def exchanged_def AuthSdkError_def TypeError_def Let_def

lemmas run_ex_defs = ex_env_def ex_rr_def ex_options_def ex_meta_def ex_idx_def

text \<open>
  C1. The claim: a remediation result with \<open>terminal\<close> set gives status TERMINAL,
  whatever else it carries, and no token exchange is attempted. The code tests
  \<open>canceled\<close> in a separate \<open>if\<close>: for a result that is terminal and
  canceled the status is CANCELED; for a terminal result that carries an
  interaction code, in a finished flow, the code is exchanged and the status is
  SUCCESS.
\<close>

theorem run_terminal_overridden:
  "terminal (ex_rr True True None)
   \<and> status (fst (run (ex_env (ex_rr True True None)) (ex_options True))) = CANCELED
   \<and> terminal (ex_rr True False (Some ''code''))
   \<and> status (fst (run (ex_env (ex_rr True False (Some ''code''))) (ex_options True))) = SUCCESS
   \<and> exchanged (snd (run (ex_env (ex_rr True False (Some ''code''))) (ex_options True)))"
  by (simp add: run_defs run_ex_defs)

lemma run_start_not_exchanged: "\<not> exchanged (snd (run_start env options))"
  by (auto simp: run_start_def exchanged_def Let_def split: option.splits sum.splits)

text \<open>
  C3, as stated, fails: when the remediation result is canceled, an interaction
  code in it is not looked at, the flow monitor is not asked, and the status is
  CANCELED with no error.
\<close>

theorem run_canceled_with_code:
  "truthy (interactionCode (ex_idx (Some ''code'')))
   \<and> rr_idxResponse (ex_rr False True (Some ''code'')) = Some (ex_idx (Some ''code''))
   \<and> isFinished \<lparr>isFinished = Inr False\<rparr> = Inr False
   \<and> status (fst (run (ex_env (ex_rr False True (Some ''code''))) (ex_options False))) = CANCELED
   \<and> error (fst (run (ex_env (ex_rr False True (Some ''code''))) (ex_options False))) = None"
  by (simp add: run_defs run_ex_defs)

text \<open>
  C3, amended. When \<open>run\<close> reaches the remediation resolver and its result is
  neither terminal nor canceled and carries an interaction code, while the
  flow monitor's \<open>isFinished()\<close> resolves to false, the returned transaction has
  status FAILURE with the policy error attached, and the calls made hold no
  token exchange. \<open>run\<close> returns this transaction: the error is a field of it.
\<close>

theorem run_policy_violation:
  assumes "run_start env options = (Inr (metaFromResp, handle), cs0)"
    and "introspect env (case metaFromResp of None \<Rightarrow> None | Some m \<Rightarrow> meta_sso m) handle
           = Inr idxResponse"
    and "remediators options \<noteq> None \<or> opt_actions options \<noteq> None"
    and "remediate env idxResponse (stateHandle (rawIdxState idxResponse)) options = Inr r"
    and "\<not> terminal r" and "\<not> canceled r"
    and "rr_idxResponse r = Some i" and "truthy (interactionCode i)"
    and "flowMonitor options = Some fm" and "isFinished fm = Inr False"
  shows "status (fst (run env options)) = FAILURE
    \<and> error (fst (run env options))
        = Some (AuthSdkError ''Current flow is not supported, check policy settings in your org.'')
    \<and> \<not> exchanged (snd (run env options))"
proof -
  have "\<not> exchanged cs0" using run_start_not_exchanged[of env options] assms(1) by simp
  then show ?thesis using assms
    by (auto simp: run_def run_try_def run_branch_def run_resolve_def exchanged_def
        split: option.splits)
qed

theorem run_policy_violation_witness:
  "status (fst (run (ex_env (ex_rr False False (Some ''code''))) (ex_options False))) = FAILURE
   \<and> error (fst (run (ex_env (ex_rr False False (Some ''code''))) (ex_options False)))
       = Some (AuthSdkError ''Current flow is not supported, check policy settings in your org.'')
   \<and> \<not> exchanged (snd (run (ex_env (ex_rr False False (Some ''code''))) (ex_options False)))"
  using run_policy_violation [where env = "ex_env (ex_rr False False (Some ''code''))"
      and options = "ex_options False" and metaFromResp = "Some ex_meta"
      and handle = "Some ''handle''" and ?cs0.0 = "[SetFlow ''authenticate'']"
      and idxResponse = "ex_idx None" and r = "ex_rr False False (Some ''code'')"
      and i = "ex_idx (Some ''code'')" and fm = "\<lparr>isFinished = Inr False\<rparr>"]
  by (simp add: run_start_def truthy_def Let_def run_ex_defs)

section \<open>Properties of the verify-authenticator remediator\<close>

text \<open>
  C9. For every verify-authenticator remediator: when the bound authenticator's
  type is \<open>password\<close>, \<open>canRemediate\<close> is true exactly when a password is
  supplied; otherwise exactly when a verification code or an otp is supplied.
\<close>

theorem canRemediate_rule:
  "canRemediate this =
     (if auth_type (getAuthenticator this) = ''password''
      then supplied (password (vals this))
      else supplied (verificationCode (vals this)) \<or> supplied (otp (vals this)))"
  by (auto simp: canRemediate_def supplied_def truthy_def js_or_def Let_def split: option.splits)

theorem canRemediate_rule_witness:
  "canRemediate (ex_remediator ''password''
       \<lparr>verificationCode = None, password = Some ''secret'', otp = None\<rparr>)
   \<and> \<not> canRemediate (ex_remediator ''password''
       \<lparr>verificationCode = Some ''123456'', password = None, otp = None\<rparr>)
   \<and> canRemediate (ex_remediator ''email''
       \<lparr>verificationCode = None, password = None, otp = Some ''123456''\<rparr>)
   \<and> \<not> canRemediate (ex_remediator ''email''
       \<lparr>verificationCode = None, password = Some ''secret'', otp = None\<rparr>)"
  using canRemediate_rule [of "ex_remediator ''password''
          \<lparr>verificationCode = None, password = Some ''secret'', otp = None\<rparr>"]
        canRemediate_rule [of "ex_remediator ''password''
          \<lparr>verificationCode = Some ''123456'', password = None, otp = None\<rparr>"]
        canRemediate_rule [of "ex_remediator ''email''
          \<lparr>verificationCode = None, password = None, otp = Some ''123456''\<rparr>"]
        canRemediate_rule [of "ex_remediator ''email''
          \<lparr>verificationCode = None, password = Some ''secret'', otp = None\<rparr>"]
  by (simp add: ex_remediator_def getAuthenticator_def supplied_def)

section \<open>Properties of JavaScript numbers\<close>

subsection \<open>Exponent\<close>

lemma expo_from_bounds: "e - int n \<le> expo_from n e a \<and> expo_from n e a \<le> e"
proof (induction n arbitrary: e)
  case 0
  then show ?case by simp
next
  case (Suc n)
  show ?case using Suc[of "e - 1"] by auto
qed

lemma expo_from_reached:
  "e - int n < expo_from n e a \<Longrightarrow> 2 powi (expo_from n e a) \<le> a"
proof (induction n arbitrary: e)
  case 0
  then show ?case by simp
next
  case (Suc n)
  show ?case
  proof (cases "2 powi e \<le> a")
    case True
    then show ?thesis by simp
  next
    case False
    then show ?thesis using Suc.IH[of "e - 1"] Suc.prems by simp
  qed
qed

lemma expo_from_above:
  "expo_from n e a < e' \<Longrightarrow> e' \<le> e \<Longrightarrow> \<not> 2 powi e' \<le> a"
proof (induction n arbitrary: e)
  case 0
  then show ?case by simp
next
  case (Suc n)
  show ?case
  proof (cases "2 powi e \<le> a")
    case True
    then show ?thesis using Suc.prems by simp
  next
    case False
    show ?thesis
    proof (cases "e' = e")
      case True
      then show ?thesis using False by simp
    next
      case neq: False
      then have "e' \<le> e - 1" using Suc.prems by simp
      moreover have "expo_from n (e - 1) a < e'" using Suc.prems False by simp
      ultimately show ?thesis using Suc.IH[of "e - 1"] by simp
    qed
  qed
qed

lemma expo_range: "- 1022 \<le> expo a" "expo a \<le> 1023"
  using expo_from_bounds[of 1023 2045 a] by (simp_all add: expo_def)

lemma expo_le: "- 1022 < expo a \<Longrightarrow> 2 powi (expo a) \<le> a"
  using expo_from_reached[of 1023 2045 a] by (simp add: expo_def)

lemma expo_gt: "expo a < 1023 \<Longrightarrow> a < 2 powi (expo a + 1)"
  using expo_from_above[of 2045 1023 a "expo a + 1"] by (simp add: expo_def not_le)

lemma expo_unique:
  assumes "- 1022 \<le> e" and "e \<le> 1023" and "2 powi e \<le> a" and "a < 2 powi (e + 1)"
  shows "expo a = e"
proof (rule ccontr)
  assume ne: "expo a \<noteq> e"
  show False
  proof (cases "expo a < e")
    case True
    then have "\<not> 2 powi e \<le> a"
      using expo_from_above[of 2045 1023 a e] assms(2) by (simp add: expo_def)
    then show False using assms(3) by simp
  next
    case False
    then have gt: "e + 1 \<le> expo a" using ne by simp
    then have "- 1022 < expo a" using assms(1) by simp
    then have "2 powi (expo a) \<le> a" by (rule expo_le)
    moreover have "(2::real) powi (e + 1) \<le> 2 powi (expo a)"
      using gt by (intro power_int_increasing) simp_all
    ultimately show False using assms(4) by simp
  qed
qed

lemma expo_small: "a < 2 powi (- 1022) \<Longrightarrow> expo a = - 1022"
proof (rule ccontr)
  assume a: "a < 2 powi (- 1022)" and ne: "expo a \<noteq> - 1022"
  then have gt: "- 1022 < expo a" using expo_range(1)[of a] by simp
  then have "2 powi (expo a) \<le> a" by (rule expo_le)
  moreover have "(2::real) powi (- 1022) \<le> 2 powi (expo a)"
    using gt by (intro power_int_increasing) simp_all
  ultimately show False using a by simp
qed

lemma expo_mono: assumes "a \<le> b" shows "expo a \<le> expo b"
proof (rule ccontr)
  assume "\<not> expo a \<le> expo b"
  then have lt: "expo b < expo a" by simp
  then have "- 1022 < expo a" using expo_range(1)[of b] by simp
  then have "2 powi (expo a) \<le> a" by (rule expo_le)
  then have "2 powi (expo a) \<le> b" using assms by simp
  moreover have "\<not> 2 powi (expo a) \<le> b"
    using expo_from_above[of 2045 1023 b "expo a"] lt expo_range(2)[of a] by (simp add: expo_def)
  ultimately show False by simp
qed


subsection \<open>Rounding to an integer, ties to even\<close>

lemma round_even_int [simp]: "round_even (of_int k) = k"
  by (simp add: round_even_def)

lemma round_even_range: "\<lfloor>m\<rfloor> \<le> round_even m \<and> round_even m \<le> \<lfloor>m\<rfloor> + 1"
  by (simp add: round_even_def Let_def)

lemma round_even_mono: assumes "m \<le> m'" shows "round_even m \<le> round_even m'"
proof (cases "\<lfloor>m\<rfloor> = \<lfloor>m'\<rfloor>")
  case True
  then show ?thesis using assms by (auto simp: round_even_def Let_def)
next
  case False
  then have "\<lfloor>m\<rfloor> + 1 \<le> \<lfloor>m'\<rfloor>" using floor_mono[OF assms] by simp
  then show ?thesis using round_even_range[of m] round_even_range[of m'] by simp
qed

lemma round_even_minus: "round_even (- m) = - round_even m"
proof (cases "m \<in> \<int>")
  case True
  then obtain k where "m = of_int k" by (auto elim: Ints_cases)
  then show ?thesis by (simp flip: of_int_minus)
next
  case False
  then have "m \<noteq> of_int \<lfloor>m\<rfloor>" by (metis Ints_of_int)
  then have f: "\<lfloor>- m\<rfloor> = - \<lfloor>m\<rfloor> - 1"
    by (simp add: floor_minus ceiling_altdef)
  have frac: "m - of_int \<lfloor>m\<rfloor> < 1" "0 \<le> m - of_int \<lfloor>m\<rfloor>" by linarith+
  show ?thesis
    unfolding round_even_def Let_def f using frac
    by (auto simp: algebra_simps)
qed


subsection \<open>Rounding to the nearest double\<close>

lemma ulp_pos: "0 < ulp x"
  by (simp add: ulp_def)

lemma ulp_minus [simp]: "ulp (- x) = ulp x"
  by (simp add: ulp_def)

lemma nearest_minus: "nearest (- x) = - nearest x"
  by (simp add: nearest_def round_even_minus)

lemma nearest_zero [simp]: "nearest 0 = 0"
  by (simp add: nearest_def round_even_def)

lemma nearest_fixed:
  assumes "x / ulp x \<in> \<int>"
  shows "nearest x = x"
proof -
  obtain k where k: "x / ulp x = of_int k" using assms by (auto elim: Ints_cases)
  have "nearest x = of_int k * ulp x" unfolding nearest_def k by simp
  also have "\<dots> = x / ulp x * ulp x" by (simp add: k)
  also have "\<dots> = x" using ulp_pos[of x] by simp
  finally show ?thesis .
qed

lemma nearest_upper:
  assumes "0 \<le> a" and "expo a < 1023"
  shows "nearest a \<le> 2 powi (expo a + 1)"
proof -
  have u: "ulp a = 2 powi (expo a - 52)" using assms(1) by (simp add: ulp_def)
  have "a < 2 powi (expo a + 1)" using assms(2) by (rule expo_gt)
  then have "a / ulp a \<le> 2 powi (expo a + 1) / ulp a"
    using ulp_pos[of a] by (simp add: divide_right_mono)
  also have "\<dots> = 2 powi 53"
    unfolding u by (simp flip: power_int_diff)
  finally have "a / ulp a \<le> of_int (2 ^ 53)" by simp
  then have "round_even (a / ulp a) \<le> 2 ^ 53"
    using round_even_mono[of "a / ulp a" "of_int (2 ^ 53)"] by (simp only: round_even_int)
  then have "real_of_int (round_even (a / ulp a)) \<le> 2 ^ 53"
    by (metis of_int_le_iff of_int_numeral of_int_power)
  then have "nearest a \<le> 2 ^ 53 * ulp a"
    unfolding nearest_def using ulp_pos[of a] by (simp add: mult_right_mono)
  also have "\<dots> = 2 powi (expo a + 1)"
    unfolding u using power_int_add[of "2::real" 53 "expo a - 52"] by (simp add: algebra_simps)
  finally show ?thesis .
qed

lemma nearest_lower:
  assumes "0 \<le> b" and "- 1022 < expo b"
  shows "2 powi (expo b) \<le> nearest b"
proof -
  have u: "ulp b = 2 powi (expo b - 52)" using assms(1) by (simp add: ulp_def)
  have "2 powi (expo b) \<le> b" using assms(2) by (rule expo_le)
  then have "2 powi (expo b) / ulp b \<le> b / ulp b"
    using ulp_pos[of b] by (simp add: divide_right_mono)
  moreover have "2 powi (expo b) / ulp b = 2 powi 52"
    unfolding u by (simp flip: power_int_diff)
  ultimately have "of_int (2 ^ 52) \<le> b / ulp b" by simp
  then have "2 ^ 52 \<le> round_even (b / ulp b)"
    using round_even_mono[of "of_int (2 ^ 52)" "b / ulp b"] by (simp only: round_even_int)
  then have "(2::real) ^ 52 \<le> real_of_int (round_even (b / ulp b))"
    by (metis of_int_le_iff of_int_numeral of_int_power)
  then have "2 ^ 52 * ulp b \<le> nearest b"
    unfolding nearest_def using ulp_pos[of b] by (simp add: mult_right_mono)
  moreover have "(2::real) ^ 52 * ulp b = 2 powi (expo b)"
    unfolding u using power_int_add[of "2::real" 52 "expo b - 52"] by (simp add: algebra_simps)
  ultimately show ?thesis by simp
qed

lemma nearest_mono_nonneg:
  assumes "0 \<le> a" and "a \<le> b"
  shows "nearest a \<le> nearest b"
proof (cases "expo a = expo b")
  case True
  have b: "0 \<le> b" using assms by simp
  have u: "ulp a = ulp b" using True assms(1) b by (simp add: ulp_def)
  have "a / ulp b \<le> b / ulp b" using assms(2) ulp_pos[of b] by (simp add: divide_right_mono)
  then have "round_even (a / ulp b) \<le> round_even (b / ulp b)" by (rule round_even_mono)
  then have "real_of_int (round_even (a / ulp b)) \<le> real_of_int (round_even (b / ulp b))"
    by simp
  then show ?thesis unfolding nearest_def u using ulp_pos[of b] by (simp add: mult_right_mono)
next
  case False
  have b: "0 \<le> b" using assms by simp
  have lt: "expo a < expo b" using expo_mono[OF assms(2)] False by simp
  have "expo a < 1023" using lt expo_range(2)[of b] by simp
  then have 1: "nearest a \<le> 2 powi (expo a + 1)" using assms(1) by (intro nearest_upper)
  have "- 1022 < expo b" using lt expo_range(1)[of a] by simp
  then have 2: "2 powi (expo b) \<le> nearest b" using b by (intro nearest_lower)
  have "(2::real) powi (expo a + 1) \<le> 2 powi (expo b)"
    using lt by (intro power_int_increasing) simp_all
  then show ?thesis using 1 2 by simp
qed

lemma nearest_nonneg: "0 \<le> a \<Longrightarrow> 0 \<le> nearest a"
  using nearest_mono_nonneg[of 0 a] by simp

lemma nearest_mono: assumes "x \<le> y" shows "nearest x \<le> nearest y"
proof (cases "0 \<le> x")
  case True
  then show ?thesis using assms by (rule nearest_mono_nonneg)
next
  case neg: False
  show ?thesis
  proof (cases "0 \<le> y")
    case True
    have "0 \<le> nearest (- x)" using neg by (intro nearest_nonneg) simp
    then have "nearest x \<le> 0" by (simp add: nearest_minus)
    then show ?thesis using nearest_nonneg[OF True] by simp
  next
    case False
    have "nearest (- y) \<le> nearest (- x)" using False assms by (intro nearest_mono_nonneg) simp_all
    then show ?thesis by (simp add: nearest_minus)
  qed
qed

lemma nearest_int:
  assumes "x \<in> \<int>" and "\<bar>x\<bar> \<le> 2 ^ 53"
  shows "nearest x = x"
proof (cases "x = 0")
  case True
  then show ?thesis by simp
next
  case False
  let ?a = "\<bar>x\<bar>"
  have one: "1 \<le> ?a"
  proof -
    obtain k where k: "x = of_int k" using assms(1) by (auto elim: Ints_cases)
    then have "k \<noteq> 0" using False by simp
    then have "1 \<le> \<bar>k\<bar>" by simp
    then have "(1::real) \<le> of_int \<bar>k\<bar>" by (metis of_int_1_le_iff)
    then show ?thesis by (simp add: k)
  qed
  have e0: "0 \<le> expo ?a"
  proof (rule ccontr)
    assume "\<not> 0 \<le> expo ?a"
    then have neg: "expo ?a + 1 \<le> 0" by simp
    then have "?a < 2 powi (expo ?a + 1)" by (intro expo_gt) simp
    moreover have "(2::real) powi (expo ?a + 1) \<le> 2 powi 0"
      using neg by (intro power_int_increasing) simp_all
    ultimately show False using one by simp
  qed
  have e53: "expo ?a \<le> 53"
  proof (rule ccontr)
    assume "\<not> expo ?a \<le> 53"
    then have big: "54 \<le> expo ?a" by simp
    then have "2 powi (expo ?a) \<le> ?a" by (intro expo_le) simp
    moreover have "(2::real) powi 54 \<le> 2 powi (expo ?a)"
      using big by (intro power_int_increasing) simp_all
    ultimately show False using assms(2) by simp
  qed
  have "x / ulp x \<in> \<int>"
  proof (cases "expo ?a \<le> 52")
    case True
    have "x / ulp x = x * 2 powi (52 - expo ?a)"
      by (simp add: ulp_def power_int_diff field_simps)
    also have "\<dots> = x * 2 ^ nat (52 - expo ?a)"
      using True by (simp add: power_int_def)
    finally show ?thesis using assms(1) by simp
  next
    case False
    then have e: "expo ?a = 53" using e53 by simp
    have "2 powi (expo ?a) \<le> ?a" by (intro expo_le) (simp add: e)
    then have "?a = 2 ^ 53" using assms(2) by (simp add: e)
    then have "x = 2 ^ 53 \<or> x = - (2 ^ 53)" by (auto simp: abs_if split: if_splits)
    moreover have "ulp x = 2" by (simp add: ulp_def e)
    ultimately show ?thesis by auto
  qed
  then show ?thesis by (rule nearest_fixed)
qed

lemma round64_int:
  assumes "x \<in> \<int>" and "\<bar>x\<bar> \<le> 2 ^ 53"
  shows "round64 x = Finite x"
proof -
  have "nearest x = x" using assms by (rule nearest_int)
  moreover have "\<bar>x\<bar> < 2 powi 1024" using assms(2) by simp
  ultimately show ?thesis by (simp add: round64_def)
qed

lemma round64_tie: "round64 9007199254740993 = Finite 9007199254740992"
proof -
  have e: "expo 9007199254740993 = 53" by (rule expo_unique) simp_all
  have "nearest (2 ^ 53 + 1) = 2 ^ 53"
    by (simp add: nearest_def ulp_def e round_even_def)
  then show ?thesis by (simp add: round64_def)
qed

lemma round64_mono: assumes "x \<le> y" shows "num_le (round64 x) (round64 y)"
proof -
  have "nearest x \<le> nearest y" using assms by (rule nearest_mono)
  then show ?thesis by (auto simp: round64_def Let_def)
qed

lemma round64_double_nearest: "round64 d = Finite d \<Longrightarrow> nearest d = d"
  by (simp add: round64_def Let_def split: if_splits)

section \<open>Properties of the token manager\<close>

lemmas tm_ex_defs = ex_sdk_def ex_state_def ex_idToken_def ex_accessToken_def
  DEFAULT_OPTIONS_def ex_bag1_def ex_bag2_def ex_stored_def




lemma num_falsy_iff: "num_falsy x \<longleftrightarrow> x = Finite 0 \<or> x = NaN"
  by (cases x) auto

lemma timeouts_setExpire:
  "expireTimeouts (setExpireEventTimeout st key token) =
     AList.update key (expireTimer st key token) (AList.delete key (expireTimeouts st))"
  by (simp add: setExpireEventTimeout_def clearExpireEventTimeout_def Let_def)

lemma expireTimer_frame:
  "clock_now s' = clock_now s \<Longrightarrow> tm_options s' = tm_options s
     \<Longrightarrow> expireTimer s' key token = expireTimer s key token"
  by (simp add: expireTimer_def getExpireTime_def Let_def)



subsection \<open>The throttle of automatic renewal\<close>


lemma renew_keeps_options: "tm_options (snd (renew sdk st key)) = tm_options st"
  by (simp add: renew_def clearExpireEventTimeout_def get_def getStorage_def Let_def
      split: option.splits sum.splits)

lemma renew_keeps_queue: "renewTimeQueue (snd (renew sdk st key)) = renewTimeQueue st"
  by (simp add: renew_def clearExpireEventTimeout_def get_def getStorage_def Let_def
      split: option.splits sum.splits)

lemma shouldThrottleRenew_queue:
  "snd (shouldThrottleRenew q t) = (if 9 \<le> length q then tl (q @ [t]) else q @ [t])"
  by (cases q) (auto simp: shouldThrottleRenew_def Let_def)

lemma shouldThrottleRenew_answer:
  "fst (shouldThrottleRenew q t) = (9 \<le> length q \<and> t - hd q < 30 * 1000)"
  by (cases q) (auto simp: shouldThrottleRenew_def Let_def)

lemma handler_autoRenew:
  assumes "autoRenew (tm_options st)"
  shows "tm_options (snd (onTokenExpiredHandler sdk st key t)) = tm_options st"
    and "renewTimeQueue (snd (onTokenExpiredHandler sdk st key t))
           = snd (shouldThrottleRenew (renewTimeQueue st) t)"
  using assms
  by (auto simp: onTokenExpiredHandler_def Let_def emitError_def emit_def renew_keeps_options
      renew_keeps_queue split: prod.splits)

lemma expiredEvents_append:
  "expiredEvents sdk st (xs @ ys) = expiredEvents sdk (expiredEvents sdk st xs) ys"
  by (induction xs arbitrary: st) auto

lemma tl_drop_snoc:
  assumes "9 \<le> length ts"
  shows "tl (drop (length ts - 9) ts @ [t]) = drop (length ts - 8) (ts @ [t])"
proof -
  have "drop (length ts - 9) ts \<noteq> []" using assms by simp
  then have "tl (drop (length ts - 9) ts @ [t]) = drop (Suc (length ts - 9)) ts @ [t]"
    by (simp add: drop_Suc tl_drop)
  moreover have "Suc (length ts - 9) = length ts - 8" using assms by simp
  ultimately show ?thesis using assms by simp
qed

lemma queue_step:
  "snd (shouldThrottleRenew (drop (length ts - 9) ts) t) = drop (length ts - 8) (ts @ [t])"
proof (cases "9 \<le> length ts")
  case True
  then have "9 \<le> length (drop (length ts - 9) ts)" by simp
  then have "snd (shouldThrottleRenew (drop (length ts - 9) ts) t)
               = tl (drop (length ts - 9) ts @ [t])"
    by (simp only: shouldThrottleRenew_queue if_True)
  then show ?thesis using tl_drop_snoc[OF True, of t] by simp
next
  case False
  then show ?thesis by (simp add: shouldThrottleRenew_queue)
qed

lemma expiredEvents_queue:
  assumes "autoRenew (tm_options st)" and "renewTimeQueue st = []"
  shows "tm_options (expiredEvents sdk st evs) = tm_options st
    \<and> renewTimeQueue (expiredEvents sdk st evs) = drop (length evs - 9) (map snd evs)"
proof (induction evs rule: rev_induct)
  case Nil
  then show ?case using assms by simp
next
  case (snoc e evs)
  obtain k t where e: "e = (k, t)" by (cases e)
  let ?s = "expiredEvents sdk st evs"
  have auto_s: "autoRenew (tm_options ?s)" using snoc assms by simp
  have step: "expiredEvents sdk st (evs @ [e]) = snd (onTokenExpiredHandler sdk ?s k t)"
    by (simp add: expiredEvents_append e)
  have q: "renewTimeQueue ?s = drop (length (map snd evs) - 9) (map snd evs)" using snoc by simp
  have "snd (shouldThrottleRenew (renewTimeQueue ?s) t)
          = drop (length (map snd evs) - 8) (map snd evs @ [t])"
    unfolding q by (rule queue_step)
  moreover have "length (evs @ [e]) - 9 = length (map snd evs) - 8" by simp
  ultimately have "snd (shouldThrottleRenew (renewTimeQueue ?s) t)
          = drop (length (evs @ [e]) - 9) (map snd (evs @ [e]))"
    by (simp add: e)
  then show ?case using handler_autoRenew[OF auto_s] snoc step by simp
qed

lemma spaced_nth:
  "spaced ts \<Longrightarrow> Suc i < length ts \<Longrightarrow> ts ! Suc i - ts ! i > 30 * 1000"
proof (induction ts arbitrary: i rule: spaced.induct)
  case 1
  then show ?case by simp
next
  case (2 t)
  then show ?case by simp
next
  case (3 t u ts)
  then show ?case by (cases i) auto
qed

lemma spaced_far:
  assumes "spaced ts" and "i < j" and "j < length ts"
  shows "ts ! j - ts ! i > 30 * 1000"
  using assms(2,3)
proof (induction j)
  case 0
  then show ?case by simp
next
  case (Suc j)
  have s: "ts ! Suc j - ts ! j > 30 * 1000" using spaced_nth[OF assms(1), of j] Suc.prems by simp
  show ?case
  proof (cases "i = j")
    case True
    then show ?thesis using s by simp
  next
    case False
    then have "ts ! j - ts ! i > 30 * 1000" using Suc by simp
    then show ?thesis using s by simp
  qed
qed

text \<open>
  C6. Let the expiry handler run, with automatic renewal on and starting from an
  empty queue, for any sequence of expiry events \<open>evs\<close> (each an attempt with
  its reading of \<open>Date.now()\<close>), and then for one more attempt at \<open>dateNow\<close>.
  If that attempt is at least the tenth and lies less than 30 seconds after the
  ninth attempt before it (the oldest of the last ten timestamps), the handler
  emits \<open>error\<close> and starts no renewal: promises, stored renew promises and
  renewal requests are as before. If all attempts are more than 30 seconds
  apart, the attempt is not throttled: the handler calls \<open>renew\<close>.
\<close>

theorem throttle_window:
  assumes "autoRenew (tm_options st)" and "renewTimeQueue st = []"
  shows "(9 \<le> length evs \<and> dateNow - map snd evs ! (length evs - 9) < 30 * 1000
          \<longrightarrow> (\<exists>st'. onTokenExpiredHandler sdk (expiredEvents sdk st evs) key dateNow = (None, st')
                \<and> emitted st' = emitted (expiredEvents sdk st evs)
                                  @ [ERROR (AuthSdkError ''Too many token renew requests'')]
                \<and> transport st' = transport (expiredEvents sdk st evs)
                \<and> renewPromise st' = renewPromise (expiredEvents sdk st evs)
                \<and> promises st' = promises (expiredEvents sdk st evs)))
       \<and> (spaced (map snd evs @ [dateNow])
          \<longrightarrow> onTokenExpiredHandler sdk (expiredEvents sdk st evs) key dateNow
                = (None, snd (renew sdk
                     (expiredEvents sdk st evs
                        \<lparr>renewTimeQueue := drop (length evs - 8) (map snd evs @ [dateNow])\<rparr>) key)))"
proof -
  let ?s = "expiredEvents sdk st evs"
  let ?ts = "map snd evs"
  have opts: "autoRenew (tm_options ?s)" using expiredEvents_queue[OF assms] assms by simp
  have q: "renewTimeQueue ?s = drop (length ?ts - 9) ?ts"
    using expiredEvents_queue[OF assms] by simp
  have hd_q: "9 \<le> length evs \<Longrightarrow> hd (renewTimeQueue ?s) = ?ts ! (length evs - 9)"
    by (simp add: q hd_drop_conv_nth)
  have len_q: "9 \<le> length (renewTimeQueue ?s) \<longleftrightarrow> 9 \<le> length evs"
    by (auto simp: q)
  have answer: "fst (shouldThrottleRenew (renewTimeQueue ?s) dateNow)
          = (9 \<le> length evs \<and> dateNow - ?ts ! (length evs - 9) < 30 * 1000)"
    using hd_q len_q by (auto simp: shouldThrottleRenew_answer)
  have "snd (shouldThrottleRenew (renewTimeQueue ?s) dateNow)
          = drop (length ?ts - 8) (?ts @ [dateNow])"
    unfolding q by (rule queue_step)
  then have queue: "snd (shouldThrottleRenew (renewTimeQueue ?s) dateNow)
          = drop (length evs - 8) (?ts @ [dateNow])" by simp
  have far: "spaced (?ts @ [dateNow]) \<Longrightarrow> 9 \<le> length evs
               \<Longrightarrow> \<not> dateNow - ?ts ! (length evs - 9) < 30 * 1000"
  proof -
    assume sp: "spaced (?ts @ [dateNow])" and n: "9 \<le> length evs"
    have "(?ts @ [dateNow]) ! length evs - (?ts @ [dateNow]) ! (length evs - 9) > 30 * 1000"
      using spaced_far[OF sp, of "length evs - 9" "length evs"] n by simp
    moreover have "(?ts @ [dateNow]) ! length evs = dateNow"
      by (simp add: nth_append)
    moreover have "length evs - 9 < length evs" using n by arith
    then have "(?ts @ [dateNow]) ! (length evs - 9) = ?ts ! (length evs - 9)"
      by (simp add: nth_append)
    ultimately show ?thesis by simp
  qed
  show ?thesis
    using opts answer queue far
    by (auto simp: onTokenExpiredHandler_def emitError_def emit_def Let_def split: prod.splits)
qed

theorem throttle_window_witness:
  "(\<exists>st'. onTokenExpiredHandler ex_sdk (expiredEvents ex_sdk ex_state ex_burst)
             ''accessToken'' 9000 = (None, st')
        \<and> emitted st' = emitted (expiredEvents ex_sdk ex_state ex_burst)
                          @ [ERROR (AuthSdkError ''Too many token renew requests'')]
        \<and> transport st' = transport (expiredEvents ex_sdk ex_state ex_burst))
   \<and> onTokenExpiredHandler ex_sdk (expiredEvents ex_sdk ex_stored [(''accessToken'', 0)])
        ''accessToken'' 40000
      = (None, snd (renew ex_sdk
           (expiredEvents ex_sdk ex_stored [(''accessToken'', 0)]
              \<lparr>renewTimeQueue := [0, 40000]\<rparr>) ''accessToken''))"
proof -
  have a: "autoRenew (tm_options ex_state)" "renewTimeQueue ex_state = []"
    by (simp_all add: ex_state_def DEFAULT_OPTIONS_def)
  have b: "autoRenew (tm_options ex_stored)" "renewTimeQueue ex_stored = []"
    by (simp_all add: ex_stored_def ex_state_def DEFAULT_OPTIONS_def)
  have burst: "9 \<le> length ex_burst
      \<and> 9000 - map snd ex_burst ! (length ex_burst - 9) < 30 * 1000"
    by (simp add: ex_burst_def)
  have apart: "spaced (map snd [(''accessToken'', 0)] @ [40000])"
    and q: "drop (length [(''accessToken'', 0::int)] - 8) (map snd [(''accessToken'', 0)] @ [40000])
              = [0, 40000::int]"
    by simp_all
  show ?thesis
    using throttle_window [where st = ex_state and evs = ex_burst and dateNow = 9000
            and sdk = ex_sdk and key = "''accessToken''", OF a]
          throttle_window [where st = ex_stored and evs = "[(''accessToken'', 0)]"
            and dateNow = 40000 and sdk = ex_sdk and key = "''accessToken''", OF b]
          burst apart q
    by auto
qed

subsection \<open>setTokens\<close>


lemma emitted_handleKind:
  "emitted (handleKind st key token existing cb) =
     emitted st @ (case token of
                     Some t \<Rightarrow> [ADDED key t]
                   | None \<Rightarrow> (case existing of Some old \<Rightarrow> [REMOVED key (Some old)] | None \<Rightarrow> []))"
  by (simp add: handleKind_def handleAdded_def handleRemoved_def callCb_def emitAdded_def
      emitRemoved_def emit_def clearExpireEventTimeout_def setExpireEventTimeout_def Let_def
      split: option.splits)

lemma getKeyByType_readable: "getKeyByType st ty = Inr k \<Longrightarrow> storageFault st = None"
  by (simp add: getKeyByType_def getStorage_def split: option.splits)

text \<open>
  C2, amended. For every call of \<open>setTokens\<close> whose id and access tokens pass
  validation, on readable storage: each kind present in the token bag causes
  exactly one \<open>added\<close> event, with that kind's storage key and token, in the
  order id, access, refresh, whether or not the stored value changes; a kind
  absent from the bag causes no \<open>added\<close> event. (What is emitted for a kind
  absent from the bag is not part of this statement.)
\<close>

theorem setTokens_added:
  assumes "\<forall>t. bag_idToken bag = Some t \<longrightarrow> validateToken (Some t) = None"
    and "\<forall>t. bag_accessToken bag = Some t \<longrightarrow> validateToken (Some t) = None"
    and "getKeyByType st ''idToken'' = Inr k1"
    and "getKeyByType st ''accessToken'' = Inr k2"
    and "getKeyByType st ''refreshToken'' = Inr k3"
  shows "\<exists>st'. setTokens sdk st bag accessTokenCb idTokenCb refreshTokenCb = (None, st')
    \<and> filter is_added (drop (length (emitted st)) (emitted st')) =
        (case bag_idToken bag of None \<Rightarrow> []
         | Some t \<Rightarrow> [ADDED (keyOrDefault k1 (ID_TOKEN_STORAGE_KEY sdk)) t])
      @ (case bag_accessToken bag of None \<Rightarrow> []
         | Some t \<Rightarrow> [ADDED (keyOrDefault k2 (ACCESS_TOKEN_STORAGE_KEY sdk)) t])
      @ (case bag_refreshToken bag of None \<Rightarrow> []
         | Some t \<Rightarrow> [ADDED (keyOrDefault k3 (REFRESH_TOKEN_STORAGE_KEY sdk)) t])"
proof -
  have ok: "storageFault st = None" using assms(3) by (rule getKeyByType_readable)
  let ?st1 = "setStorage st
      (spreadTokens (keyOrDefault k1 (ID_TOKEN_STORAGE_KEY sdk)) (bag_idToken bag)
         (keyOrDefault k2 (ACCESS_TOKEN_STORAGE_KEY sdk)) (bag_accessToken bag)
         (keyOrDefault k3 (REFRESH_TOKEN_STORAGE_KEY sdk)) (bag_refreshToken bag))"
  obtain existingTokens where ex: "getTokens ?st1 = Inr existingTokens"
    using ok by (simp add: getTokens_def getStorage_def setStorage_def)
  have e1: "emitted ?st1 = emitted st" by (simp add: setStorage_def)
  have v1: "(case bag_idToken bag of None \<Rightarrow> None | Some t \<Rightarrow> validateToken (Some t)) = None"
    using assms(1) by (simp split: option.splits)
  have v2: "(case bag_accessToken bag of None \<Rightarrow> None | Some t \<Rightarrow> validateToken (Some t)) = None"
    using assms(2) by (simp split: option.splits)
  show ?thesis
    unfolding setTokens_def v1 v2 assms(3-5)
    by (simp add: Let_def ex emitted_handleKind e1 is_added_def split: option.splits)
qed

lemmas setTokens_defs = setTokens_def getKeyByType_def getStorage_def setStorage_def
  spreadTokens_def keyOrDefault_def getTokens_def handleKind_def handleAdded_def
  handleRemoved_def callCb_def emitAdded_def emitRemoved_def emit_def
  setExpireEventTimeout_def clearExpireEventTimeout_def expireTimer_def getExpireTime_def
  isIDToken_def isAccessToken_def isRefreshToken_def isObject_def truthy_def Let_def

text \<open>
  C2, as stated, fails. After \<open>setTokens({idToken, accessToken})\<close> the id token
  is in storage; \<open>setTokens({accessToken})\<close> with the same access token then emits
  no \<open>removed\<close> event for the id token (\<open>existingTokens\<close> is read after storage has
  been replaced) and emits \<open>added\<close> again for the unchanged access token. The
  events of both calls:
\<close>

theorem setTokens_no_removed:
  "map_of (tokenStorage (snd (setTokens ex_sdk ex_state ex_bag2 None None None))) ''idToken''
     = Some ex_idToken
   \<and> emitted (snd (setTokens ex_sdk (snd (setTokens ex_sdk ex_state ex_bag2 None None None))
                ex_bag1 None None None))
     = [ADDED ''idToken'' ex_idToken, ADDED ''accessToken'' ex_accessToken,
        ADDED ''accessToken'' ex_accessToken]"
  by (simp add: setTokens_defs tm_ex_defs)

theorem setTokens_added_witness:
  "\<exists>st'. setTokens ex_sdk ex_stored ex_bag1 None None None = (None, st')
     \<and> filter is_added (drop (length (emitted ex_stored)) (emitted st'))
         = [ADDED ''accessToken'' ex_accessToken]"
proof -
  have v: "\<forall>t. bag_idToken ex_bag1 = Some t \<longrightarrow> validateToken (Some t) = None"
    "\<forall>t. bag_accessToken ex_bag1 = Some t \<longrightarrow> validateToken (Some t) = None"
    by (simp_all add: tm_ex_defs isIDToken_def isAccessToken_def isRefreshToken_def
        isObject_def truthy_def)
  have k: "getKeyByType ex_stored ''idToken'' = Inr None"
    "getKeyByType ex_stored ''accessToken'' = Inr (Some ''accessToken'')"
    "getKeyByType ex_stored ''refreshToken'' = Inr None"
    by (simp_all add: getKeyByType_def getStorage_def tm_ex_defs isIDToken_def
        isAccessToken_def isRefreshToken_def truthy_def)
  show ?thesis
    using setTokens_added [where bag = ex_bag1 and st = ex_stored and sdk = ex_sdk
        and accessTokenCb = None and idTokenCb = None and refreshTokenCb = None, OF v k]
    by (simp add: keyOrDefault_def ex_bag1_def ex_sdk_def)
qed

subsection \<open>Renewal\<close>

lemmas renew_defs = renew_def get_def add_def getKeyByType_def getStorage_def setStorage_def
  getTokens_def renewToken_request_def emitAdded_def emitRemoved_def emit_def
  setExpireEventTimeout_def clearExpireEventTimeout_def expireTimer_def getExpireTime_def
  isIDToken_def isAccessToken_def isRefreshToken_def isObject_def truthy_def Let_def

lemma ex_renewing_fields:
  "jobs ex_renewing = [(0, \<lparr>job_key = ''accessToken'', job_token = ex_accessToken,
                            job_request = RenewPlain ex_accessToken\<rparr>)]"
  "storageFault ex_renewing = None"
  "tokenStorage ex_renewing = [(''accessToken'', ex_accessToken)]"
  "emitted ex_renewing = []"
  "clock_now ex_renewing = Finite 1000"
  "expireEarlySeconds (tm_options ex_renewing) = Finite 30"
  by (simp_all add: ex_renewing_def renew_defs tm_ex_defs)

lemma keeps_refl [simp]: "keeps key s s"
  by (simp add: keeps_def)

lemma keeps_trans: "keeps key s s' \<Longrightarrow> keeps key s' s'' \<Longrightarrow> keeps key s s''"
  by (simp add: keeps_def)

lemma keeps_clear: "k \<noteq> key \<Longrightarrow> keeps key s (clearExpireEventTimeout s k)"
  by (simp add: keeps_def clearExpireEventTimeout_def)

lemma keeps_emit: "keeps key s (emit s ev)"
  by (simp add: keeps_def emit_def)

lemma keeps_setStorage: "keeps key s (setStorage s ts)"
  by (simp add: keeps_def setStorage_def)

lemma keeps_setExpire: "k \<noteq> key \<Longrightarrow> keeps key s (setExpireEventTimeout s k t)"
  by (simp add: keeps_def setExpireEventTimeout_def clearExpireEventTimeout_def Let_def)

lemma keeps_remove: "k \<noteq> key \<Longrightarrow> keeps key s (snd (remove s k))"
  by (simp add: keeps_def remove_def clearExpireEventTimeout_def getStorage_def setStorage_def
      emitRemoved_def emit_def Let_def split: option.splits)

lemma keeps_internal_add: "k \<noteq> key \<Longrightarrow> keeps key s (snd (internal_add s k token))"
  by (cases token)
     (simp_all add: keeps_def getStorage_def setStorage_def emitAdded_def emit_def Let_def
        setExpireEventTimeout_def clearExpireEventTimeout_def split: option.splits)

lemma keeps_add: "k \<noteq> key \<Longrightarrow> keeps key s (snd (add sdk s k token))"
proof -
  assume k: "k \<noteq> key"
  have w: "keeps key s (warn s msg)" for msg by (simp add: keeps_def warn_def)
  show ?thesis unfolding add_def
    by (auto intro: keeps_trans[OF w keeps_internal_add[OF k]] keeps_internal_add[OF k])
qed

lemma keeps_renew_then:
  "k \<noteq> key \<Longrightarrow> keeps key s (snd (renew_then s k fresh))"
proof -
  assume k: "k \<noteq> key"
  have r: "keeps key s (snd (remove s k))" by (rule keeps_remove[OF k])
  have a: "keeps key s' (snd (internal_add s' k fresh))" for s'
    by (rule keeps_internal_add[OF k])
  show ?thesis
  proof (cases "getStorage s")
    case (Inl e)
    then show ?thesis by (simp add: renew_then_def)
  next
    case (Inr old)
    obtain e1 s1 where rm: "remove s k = (e1, s1)" by (cases "remove s k")
    obtain e2 s2 where ad: "internal_add s1 k fresh = (e2, s2)" by (cases "internal_add s1 k fresh")
    have k1: "keeps key s s1" using r rm by simp
    have k2: "keeps key s1 s2" using a[of s1] ad by simp
    have k3: "keeps key s2 (emitRenewed s2 k fresh v)" for v
      by (simp add: emitRenewed_def keeps_emit)
    show ?thesis
      using Inr rm ad k1 keeps_trans[OF k1 k2] keeps_trans[OF keeps_trans[OF k1 k2] k3]
      by (simp add: renew_then_def split: option.splits)
  qed
qed

lemma keeps_renew_catch:
  "k \<noteq> key \<Longrightarrow> keeps key s (snd (renew_catch s k err))"
  by (simp add: keeps_def renew_catch_def getStorage_def setStorage_def emitRemoved_def
      emitError_def emit_def clearExpireEventTimeout_def Let_def split: option.splits)


lemma registered_keeps: "registered key p s \<Longrightarrow> keeps key s s' \<Longrightarrow> registered key p s'"
  by (simp add: registered_def keeps_def)

lemma settle_shape:
  assumes "map_of (jobs s) q = Some j" and "job_key j \<noteq> key"
  shows "\<exists>s3 settled. settleRenew sdk s q
           = s3\<lparr>renewPromise := AList.delete (job_key j) (renewPromise s3),
                 jobs := AList.delete q (jobs s3),
                 promises := AList.update q settled (promises s3)\<rparr>
         \<and> keeps key s s3"
proof -
  let ?k = "job_key j"
  let ?afterThen = "case renewToken_result sdk (job_token j) (job_request j) of
                      Inl err \<Rightarrow> (Inl err, s)
                    | Inr freshToken \<Rightarrow> renew_then s ?k freshToken"
  obtain r1 s1 where t: "?afterThen = (r1, s1)" by (cases ?afterThen)
  have k1: "keeps key s s1"
  proof (cases "renewToken_result sdk (job_token j) (job_request j)")
    case (Inl err)
    then show ?thesis using t by simp
  next
    case (Inr fresh)
    then have "s1 = snd (renew_then s ?k fresh)" using t by simp
    then show ?thesis using keeps_renew_then[OF assms(2)] by simp
  qed
  let ?afterCatch = "case (r1, s1) of
                       (Inr freshToken, st1) \<Rightarrow> (Fulfilled freshToken, st1)
                     | (Inl err, st1) \<Rightarrow>
                         (case renew_catch st1 ?k err of (err1, st2) \<Rightarrow> (Rejected err1, st2))"
  obtain settled s3 where c: "?afterCatch = (settled, s3)" by (cases ?afterCatch)
  have k2: "keeps key s1 s3"
  proof (cases r1)
    case (Inl err)
    then have "s3 = snd (renew_catch s1 ?k err)" using c by (simp split: prod.splits)
    then show ?thesis using keeps_renew_catch[OF assms(2)] by simp
  next
    case (Inr fresh)
    then show ?thesis using c by simp
  qed
  have "settleRenew sdk s q
           = s3\<lparr>renewPromise := AList.delete ?k (renewPromise s3),
                 jobs := AList.delete q (jobs s3),
                 promises := AList.update q settled (promises s3)\<rparr>"
    using assms(1) t c by (simp add: settleRenew_def Let_def)
  then show ?thesis using keeps_trans[OF k1 k2] by blast
qed

lemma registered_step:
  assumes "registered key p s" and "\<not> concerns s c key"
  shows "registered key p (perform sdk s c)"
proof (cases c)
  case (Add k token)
  then have "k \<noteq> key" using assms(2) by (simp add: concerns_def)
  then show ?thesis using assms(1) Add
    by (auto simp: perform_def intro: registered_keeps keeps_add)
next
  case (Remove k)
  then have "k \<noteq> key" using assms(2) by (simp add: concerns_def)
  then show ?thesis using assms(1) Remove
    by (auto simp: perform_def intro: registered_keeps keeps_remove)
next
  case (Renew k)
  then have k: "k \<noteq> key" using assms(2) by (simp add: concerns_def)
  have np: "p \<noteq> nextPromise s" using assms(1) by (simp add: registered_def)
  show ?thesis using assms(1) k np Renew
    by (auto simp: perform_def registered_def renew_def get_def getStorage_def Let_def
        clearExpireEventTimeout_def update_conv' split: option.splits)
next
  case (Settle q)
  show ?thesis
  proof (cases "map_of (jobs s) q")
    case None
    then show ?thesis using assms(1) Settle by (simp add: perform_def settleRenew_def)
  next
    case (Some j)
    then have kj: "job_key j \<noteq> key" using assms(2) Settle by (simp add: concerns_def)
    have qp: "q \<noteq> p" using assms(1) Some kj by (auto simp: registered_def)
    obtain s3 settled where sh: "settleRenew sdk s q
           = s3\<lparr>renewPromise := AList.delete (job_key j) (renewPromise s3),
                 jobs := AList.delete q (jobs s3),
                 promises := AList.update q settled (promises s3)\<rparr>"
      and k: "keeps key s s3"
      using settle_shape[OF Some kj] by blast
    have "registered key p s3" using assms(1) k by (rule registered_keeps)
    then show ?thesis using kj qp unfolding Settle perform_def tm_call.case sh
      by (simp add: registered_def update_conv' delete_conv')
  qed
qed

lemma registered_performs:
  "registered key p s \<Longrightarrow> elsewhere sdk key s cs \<Longrightarrow> registered key p (performs sdk s cs)"
proof (induction cs arbitrary: s)
  case Nil
  then show ?case by simp
next
  case (Cons c cs)
  then show ?case using registered_step[of key p s c sdk] by simp
qed

lemma renew_existing:
  "map_of (renewPromise s) key = Some p \<Longrightarrow> renew sdk s key = (p, s)"
  by (simp add: renew_def)

lemma settleRenew_clears:
  assumes "map_of (jobs s) p = Some job"
  shows "map_of (renewPromise (settleRenew sdk s p)) (job_key job) = None"
  using assms
  by (simp add: settleRenew_def Let_def delete_conv' split: prod.splits sum.splits)

text \<open>
  C4, amended. When \<open>renew(key)\<close> starts a renewal (readable storage, a token
  under the key, no promise stored for the key), it stores a pending promise
  for the key and starts one request. After any calls of \<open>add\<close>, \<open>remove\<close> and
  \<open>renew\<close> for other keys, and the settling of renewals started for other
  keys, the renewal is still in flight, and \<open>renew(key)\<close> returns the same
  promise and changes nothing, so it starts no request. When the renewal
  settles, no promise is stored for the key any more.
\<close>

theorem renew_memoized:
  assumes "storageFault st = None"
    and "map_of (tokenStorage st) key = Some token"
    and "map_of (renewPromise st) key = None"
  shows "\<exists>p st1. renew sdk st key = (p, st1)
    \<and> registered key p st1
    \<and> transport st1 = transport st @ [renewToken_request (clearExpireEventTimeout st key) token]
    \<and> (\<forall>cs. elsewhere sdk key st1 cs
          \<longrightarrow> registered key p (performs sdk st1 cs)
            \<and> renew sdk (performs sdk st1 cs) key = (p, performs sdk st1 cs))
    \<and> (\<forall>s job. map_of (jobs s) p = Some job \<and> job_key job = key
          \<longrightarrow> map_of (renewPromise (settleRenew sdk s p)) key = None)"
proof -
  obtain p st1 where r: "renew sdk st key = (p, st1)" by (cases "renew sdk st key")
  have reg: "registered key p st1"
    using r assms
    by (auto simp: registered_def renew_def get_def getStorage_def Let_def update_conv'
        clearExpireEventTimeout_def)
  have tr: "transport st1
              = transport st @ [renewToken_request (clearExpireEventTimeout st key) token]"
    using r assms
    by (auto simp: renew_def get_def getStorage_def Let_def clearExpireEventTimeout_def)
  have later: "registered key p (performs sdk st1 cs)
            \<and> renew sdk (performs sdk st1 cs) key = (p, performs sdk st1 cs)"
    if "elsewhere sdk key st1 cs" for cs
  proof -
    have "registered key p (performs sdk st1 cs)"
      using reg that by (rule registered_performs)
    then show ?thesis by (simp add: registered_def renew_existing)
  qed
  have settle: "map_of (renewPromise (settleRenew sdk s p)) key = None"
    if "map_of (jobs s) p = Some job \<and> job_key job = key" for s job
    using that settleRenew_clears[of s p job sdk] by auto
  show ?thesis using r reg tr later settle by blast
qed


text \<open>
  C4, as stated, fails. \<open>clearExpireEventTimeout\<close> also deletes the stored renew
  promise, and \<open>add\<close> calls it. After \<open>renew\<close>, then \<open>add\<close> for the same key, the
  first renewal is still in flight (promise 0), yet a second \<open>renew\<close> returns a new
  promise (1) and starts a second request.
\<close>

theorem renew_add_renew:
  "fst (renew ex_sdk ex_stored ''accessToken'') = 0
   \<and> map_of (jobs (snd (add ex_sdk (snd (renew ex_sdk ex_stored ''accessToken''))
                          ''accessToken'' (Some ex_accessToken)))) 0
       = Some \<lparr>job_key = ''accessToken'', job_token = ex_accessToken,
               job_request = RenewPlain ex_accessToken\<rparr>
   \<and> fst (renew ex_sdk (snd (add ex_sdk (snd (renew ex_sdk ex_stored ''accessToken''))
                          ''accessToken'' (Some ex_accessToken))) ''accessToken'') = 1
   \<and> transport (snd (renew ex_sdk (snd (add ex_sdk (snd (renew ex_sdk ex_stored ''accessToken''))
                          ''accessToken'' (Some ex_accessToken))) ''accessToken''))
       = [RenewPlain ex_accessToken, RenewPlain ex_accessToken]"
  by (simp add: renew_defs tm_ex_defs)

lemmas call_defs = perform_def concerns_def add_def remove_def renew_def settleRenew_def
  renew_then_def renew_catch_def renewToken_request_def renewToken_result_def get_def
  getStorage_def setStorage_def getTokens_def emitAdded_def emitRemoved_def emitError_def
  emit_def setExpireEventTimeout_def clearExpireEventTimeout_def expireTimer_def hasExpired_def
  getExpireTime_def to_number_def num_max_def round64_int isIDToken_def isAccessToken_def
  isRefreshToken_def isObject_def truthy_def Let_def

theorem renew_memoized_witness:
  "renew ex_sdk ex_stored ''accessToken'' = (0, ex_renewing)
   \<and> transport ex_renewing = [RenewPlain ex_accessToken]
   \<and> elsewhere ex_sdk ''accessToken'' ex_renewing ex_calls
   \<and> transport (performs ex_sdk ex_renewing ex_calls)
       = [RenewPlain ex_accessToken, RenewPlain ex_idToken]
   \<and> renew ex_sdk (performs ex_sdk ex_renewing ex_calls) ''accessToken''
       = (0, performs ex_sdk ex_renewing ex_calls)
   \<and> map_of (renewPromise (settleRenew ex_sdk ex_renewing 0)) ''accessToken'' = None"
proof -
  have h: "storageFault ex_stored = None"
    "map_of (tokenStorage ex_stored) ''accessToken'' = Some ex_accessToken"
    "map_of (renewPromise ex_stored) ''accessToken'' = None"
    by (simp_all add: tm_ex_defs)
  have r: "renew ex_sdk ex_stored ''accessToken'' = (0, ex_renewing)"
    by (simp add: ex_renewing_def renew_defs tm_ex_defs)
  have e: "elsewhere ex_sdk ''accessToken'' ex_renewing ex_calls"
    by (simp add: ex_calls_def ex_renewing_def call_defs tm_ex_defs)
  have t: "transport (performs ex_sdk ex_renewing ex_calls)
       = [RenewPlain ex_accessToken, RenewPlain ex_idToken]"
    by (simp add: ex_calls_def ex_renewing_def call_defs tm_ex_defs)
  have j: "map_of (jobs ex_renewing) 0
             = Some \<lparr>job_key = ''accessToken'', job_token = ex_accessToken,
                     job_request = RenewPlain ex_accessToken\<rparr>"
    by (simp add: ex_renewing_fields)
  have q: "renewToken_request (clearExpireEventTimeout ex_stored ''accessToken'') ex_accessToken
               = RenewPlain ex_accessToken"
    by (simp add: renew_defs tm_ex_defs)
  have tr: "transport ex_stored = []" by (simp add: tm_ex_defs)
  show ?thesis
    using renew_memoized [where sdk = ex_sdk and st = ex_stored and key = "''accessToken''"
        and token = ex_accessToken, OF h] r e t j q tr
    by auto
qed

text \<open>
  C5. Let the renewal behind promise \<open>p\<close>, for key \<open>job_key job\<close>, fail with an
  error named \<open>OAuthError\<close> or \<open>AuthSdkError\<close>, on readable storage. Then the
  promise is rejected with that error, tagged with the key. If the token stored
  under the key has expired at that moment, it is deleted from storage and
  \<open>removed\<close> is emitted with it; otherwise storage is as before and \<open>removed\<close> is
  emitted without a token. In both cases \<open>error\<close> is emitted next, with the
  tagged error.
\<close>

theorem renew_authorization_failure:
  assumes "map_of (jobs st) p = Some job"
    and "renewToken_result sdk (job_token job) (job_request job) = Inl err"
    and "err_name err = ''OAuthError'' \<or> err_name err = ''AuthSdkError''"
    and "storageFault st = None"
  shows "map_of (promises (settleRenew sdk st p)) p
           = Some (Rejected (err\<lparr>tokenKey := Some (job_key job)\<rparr>))
    \<and> (\<forall>currentToken. map_of (tokenStorage st) (job_key job) = Some currentToken
           \<and> hasExpired st currentToken
         \<longrightarrow> tokenStorage (settleRenew sdk st p) = AList.delete (job_key job) (tokenStorage st)
           \<and> emitted (settleRenew sdk st p)
               = emitted st @ [REMOVED (job_key job) (Some currentToken),
                               ERROR (err\<lparr>tokenKey := Some (job_key job)\<rparr>)])
    \<and> (\<not> (\<exists>currentToken. map_of (tokenStorage st) (job_key job) = Some currentToken
           \<and> hasExpired st currentToken)
         \<longrightarrow> tokenStorage (settleRenew sdk st p) = tokenStorage st
           \<and> emitted (settleRenew sdk st p)
               = emitted st @ [REMOVED (job_key job) None,
                               ERROR (err\<lparr>tokenKey := Some (job_key job)\<rparr>)])"
  using assms
  by (auto simp: settleRenew_def renew_catch_def getStorage_def setStorage_def emitRemoved_def
      emitError_def emit_def clearExpireEventTimeout_def Let_def update_conv'
      split: option.splits)

theorem renew_authorization_failure_witness:
  "map_of (promises (settleRenew ex_sdk ex_renewing 0)) 0
     = Some (Rejected (ex_oauth_error\<lparr>tokenKey := Some ''accessToken''\<rparr>))
   \<and> tokenStorage (settleRenew ex_sdk ex_renewing 0) = [(''accessToken'', ex_accessToken)]
   \<and> emitted (settleRenew ex_sdk ex_renewing 0)
       = [REMOVED ''accessToken'' None,
          ERROR (ex_oauth_error\<lparr>tokenKey := Some ''accessToken''\<rparr>)]
   \<and> tokenStorage (settleRenew ex_sdk ex_renewing_late 0) = []
   \<and> emitted (settleRenew ex_sdk ex_renewing_late 0)
       = [REMOVED ''accessToken'' (Some ex_accessToken),
          ERROR (ex_oauth_error\<lparr>tokenKey := Some ''accessToken''\<rparr>)]"
proof -
  let ?job = "\<lparr>job_key = ''accessToken'', job_token = ex_accessToken,
               job_request = RenewPlain ex_accessToken\<rparr>"
  have j: "map_of (jobs ex_renewing) 0 = Some ?job"
    "map_of (jobs ex_renewing_late) 0 = Some ?job"
    by (simp_all add: ex_renewing_late_def ex_renewing_fields)
  have r: "renewToken_result ex_sdk (job_token ?job) (job_request ?job) = Inl ex_oauth_error"
    by (simp add: renewToken_result_def ex_sdk_def ex_oauth_error_def)
  have n: "err_name ex_oauth_error = ''OAuthError'' \<or> err_name ex_oauth_error = ''AuthSdkError''"
    by (simp add: ex_oauth_error_def)
  have f: "storageFault ex_renewing = None" "storageFault ex_renewing_late = None"
    by (simp_all add: ex_renewing_late_def ex_renewing_fields)
  have fresh: "\<not> hasExpired ex_renewing ex_accessToken"
    by (simp add: hasExpired_def getExpireTime_def to_number_def ex_renewing_fields
        ex_accessToken_def round64_int)
  have late: "hasExpired ex_renewing_late ex_accessToken"
    by (simp add: hasExpired_def getExpireTime_def to_number_def ex_renewing_late_def
        ex_renewing_fields ex_accessToken_def round64_int)
  have s: "tokenStorage ex_renewing = [(''accessToken'', ex_accessToken)]"
    "tokenStorage ex_renewing_late = [(''accessToken'', ex_accessToken)]"
    "emitted ex_renewing = []" "emitted ex_renewing_late = []"
    by (simp_all add: ex_renewing_late_def ex_renewing_fields)
  show ?thesis
    using renew_authorization_failure [OF j(1) r n f(1)]
          renew_authorization_failure [OF j(2) r n f(2)]
          fresh late s
    by simp
qed

subsection \<open>Changes made in other tabs\<close>


lemma filter_delete_keys:
  "filter (\<lambda>(k', _). k' \<notin> set ks) (AList.delete k xs)
     = filter (\<lambda>(k', _). k' \<notin> set (k # ks)) xs"
  by (induction xs) (auto simp: AList.delete_eq)

lemma fold_clear_timeouts:
  "expireTimeouts (fold (\<lambda>key s. clearExpireEventTimeout s key) ks st)
     = filter (\<lambda>(k, _). k \<notin> set ks) (expireTimeouts st)"
proof (induction ks arbitrary: st)
  case Nil
  then show ?case by simp
next
  case (Cons k ks)
  have "expireTimeouts (clearExpireEventTimeout st k) = AList.delete k (expireTimeouts st)"
    by (simp add: clearExpireEventTimeout_def)
  then show ?case using Cons[of "clearExpireEventTimeout st k"] filter_delete_keys[of ks k]
    by simp
qed

lemma clear_frame:
  "clock_now (clearExpireEventTimeout st k) = clock_now st"
  "tm_options (clearExpireEventTimeout st k) = tm_options st"
  "tokenStorage (clearExpireEventTimeout st k) = tokenStorage st"
  "storageFault (clearExpireEventTimeout st k) = storageFault st"
  by (simp_all add: clearExpireEventTimeout_def)

lemma fold_clear_frame:
  "clock_now (fold (\<lambda>key s. clearExpireEventTimeout s key) ks s) = clock_now s
   \<and> tm_options (fold (\<lambda>key s. clearExpireEventTimeout s key) ks s) = tm_options s
   \<and> tokenStorage (fold (\<lambda>key s. clearExpireEventTimeout s key) ks s) = tokenStorage s
   \<and> storageFault (fold (\<lambda>key s. clearExpireEventTimeout s key) ks s) = storageFault s"
  by (induction ks arbitrary: s) (simp_all add: clear_frame)

lemma clearAll_frame:
  "clock_now (clearExpireEventTimeoutAll st) = clock_now st"
  "tm_options (clearExpireEventTimeoutAll st) = tm_options st"
  "tokenStorage (clearExpireEventTimeoutAll st) = tokenStorage st"
  "storageFault (clearExpireEventTimeoutAll st) = storageFault st"
  unfolding clearExpireEventTimeoutAll_def using fold_clear_frame by blast+

lemma clearAll_timeouts: "expireTimeouts (clearExpireEventTimeoutAll st) = []"
proof -
  have "filter (\<lambda>(k, _). k \<notin> fst ` set xs) xs = []" for xs :: "(string \<times> timer) list"
    by (induction xs) (auto simp: filter_empty_conv)
  then show ?thesis by (simp add: clearExpireEventTimeoutAll_def fold_clear_timeouts)
qed

lemma update_fresh: "k \<notin> fst ` set al \<Longrightarrow> AList.update k v al = al @ [(k, v)]"
  by (induction al) auto

lemma setExpire_fresh:
  assumes "k \<notin> fst ` set (expireTimeouts s)"
  shows "expireTimeouts (setExpireEventTimeout s k t) = expireTimeouts s @ [(k, expireTimer s k t)]"
  using assms by (simp add: timeouts_setExpire update_fresh)

lemma setExpire_frame:
  "clock_now (setExpireEventTimeout s k t) = clock_now s"
  "tm_options (setExpireEventTimeout s k t) = tm_options s"
  by (simp_all add: setExpireEventTimeout_def clearExpireEventTimeout_def Let_def)

lemma fold_set_timeouts:
  assumes "distinct (map fst ts)" and "fst ` set (expireTimeouts s) \<inter> fst ` set ts = {}"
  shows "expireTimeouts (fold (\<lambda>(key, token) s. setExpireEventTimeout s key token) ts s)
           = expireTimeouts s @ map (\<lambda>(key, token). (key, expireTimer s key token)) ts"
  using assms
proof (induction ts arbitrary: s)
  case Nil
  then show ?case by simp
next
  case (Cons kt ts)
  obtain k t where kt: "kt = (k, t)" by (cases kt)
  let ?s1 = "setExpireEventTimeout s k t"
  have fresh: "k \<notin> fst ` set (expireTimeouts s)" using Cons.prems(2) kt by auto
  have t1: "expireTimeouts ?s1 = expireTimeouts s @ [(k, expireTimer s k t)]"
    using fresh by (rule setExpire_fresh)
  have knew: "k \<notin> fst ` set ts" using Cons.prems(1) kt by (simp add: image_iff) 
  have disj: "fst ` set (expireTimeouts ?s1) \<inter> fst ` set ts = {}"
    using Cons.prems(2) knew unfolding t1 kt by auto
  have dist: "distinct (map fst ts)" using Cons.prems(1) by simp
  have same: "expireTimer ?s1 key token = expireTimer s key token" for key token
    by (rule expireTimer_frame) (rule setExpire_frame)+
  have ih: "expireTimeouts (fold (\<lambda>(key, token) s. setExpireEventTimeout s key token) ts ?s1)
           = expireTimeouts ?s1 @ map (\<lambda>(key, token). (key, expireTimer ?s1 key token)) ts"
    by (rule Cons.IH[OF dist disj])
  show ?case unfolding kt using ih by (simp add: t1 same)
qed


lemma fold_keeps_timeouts:
  assumes "\<And>x s. expireTimeouts (f x s) = expireTimeouts s"
  shows "expireTimeouts (fold f xs st) = expireTimeouts st"
  using assms by (induction xs arbitrary: st) simp_all

lemma emitEvents_timeouts:
  "expireTimeouts (emitEventsForCrossTabsStorageUpdate sdk st new old) = expireTimeouts st"
proof -
  have a: "expireTimeouts (emitAdded s k t) = expireTimeouts s" for s k t
    by (simp add: emitAdded_def emit_def)
  have r: "expireTimeouts (emitRemoved s k t) = expireTimeouts s" for s k t
    by (simp add: emitRemoved_def emit_def)
  show ?thesis
    unfolding emitEventsForCrossTabsStorageUpdate_def Let_def
    by (simp add: fold_keeps_timeouts a r split: option.splits)
qed

lemma reset_timeouts:
  assumes "storageFault st = None" and "distinct (map fst (tokenStorage st))"
  shows "expireTimeouts (resetExpireEventTimeoutAll st)
           = map (\<lambda>(key, token). (key, expireTimer st key token)) (tokenStorage st)"
proof -
  let ?c = "clearExpireEventTimeoutAll st"
  have empty: "expireTimeouts ?c = []" by (rule clearAll_timeouts)
  have disj: "fst ` set (expireTimeouts ?c) \<inter> fst ` set (tokenStorage st) = {}"
    unfolding empty by simp
  have folded: "expireTimeouts
           (fold (\<lambda>(key, token) s. setExpireEventTimeout s key token) (tokenStorage st) ?c)
          = map (\<lambda>(key, token). (key, expireTimer ?c key token)) (tokenStorage st)"
    unfolding fold_set_timeouts[OF assms(2) disj] empty by simp
  have "setExpireEventTimeoutAll ?c
          = fold (\<lambda>(key, token) s. setExpireEventTimeout s key token) (tokenStorage st) ?c"
    by (simp add: setExpireEventTimeoutAll_def getStorage_def clearAll_frame assms(1))
  then have all: "expireTimeouts (setExpireEventTimeoutAll ?c)
          = map (\<lambda>(key, token). (key, expireTimer ?c key token)) (tokenStorage st)"
    using folded by simp
  have same: "expireTimer ?c key token = expireTimer st key token" for key token
    by (rule expireTimer_frame) (rule clearAll_frame)+
  show ?thesis unfolding resetExpireEventTimeoutAll_def all by (simp add: same)
qed

lemma fold_emitted:
  assumes "\<And>x s. emitted (h x s) = emitted s @ ev x"
  shows "emitted (fold h xs st) = emitted st @ concat (map ev xs)"
  using assms by (induction xs arbitrary: st) simp_all

lemma emitEvents_emitted_keys:
  "emitted (emitEventsForCrossTabsStorageUpdate sdk st new old) =
     emitted st
     @ concat (map (\<lambda>key. case map_of (getTokensFromStorageValue sdk new) key of
                              None \<Rightarrow> []
                            | Some newToken \<Rightarrow>
                               if map_option (jsonStringify sdk)
                                    (map_of (getTokensFromStorageValue sdk old) key)
                                    \<noteq> Some (jsonStringify sdk newToken)
                               then [ADDED key newToken] else [])
          (map fst (getTokensFromStorageValue sdk new)))
     @ concat (map (\<lambda>key. case map_of (getTokensFromStorageValue sdk new) key of
                              None \<Rightarrow> [REMOVED key (map_of (getTokensFromStorageValue sdk old) key)]
                            | Some newToken \<Rightarrow> [])
          (map fst (getTokensFromStorageValue sdk old)))"
proof -
  let ?n = "getTokensFromStorageValue sdk new" and ?o = "getTokensFromStorageValue sdk old"
  have 1: "emitted (fold (\<lambda>key s. case map_of ?n key of
                          None \<Rightarrow> s
                        | Some newToken \<Rightarrow>
                           if map_option (jsonStringify sdk) (map_of ?o key)
                                \<noteq> Some (jsonStringify sdk newToken)
                           then emitAdded s key newToken else s) xs s)
             = emitted s @ concat (map (\<lambda>key. case map_of ?n key of
                              None \<Rightarrow> []
                            | Some newToken \<Rightarrow>
                               if map_option (jsonStringify sdk) (map_of ?o key)
                                    \<noteq> Some (jsonStringify sdk newToken)
                               then [ADDED key newToken] else []) xs)" for xs s
    by (rule fold_emitted) (auto simp: emitAdded_def emit_def split: option.splits)
  have 2: "emitted (fold (\<lambda>key s. case map_of ?n key of
                          None \<Rightarrow> emitRemoved s key (map_of ?o key)
                        | Some newToken \<Rightarrow> s) xs s)
             = emitted s @ concat (map (\<lambda>key. case map_of ?n key of
                              None \<Rightarrow> [REMOVED key (map_of ?o key)]
                            | Some newToken \<Rightarrow> []) xs)" for xs s
    by (rule fold_emitted) (auto simp: emitRemoved_def emit_def split: option.splits)
  show ?thesis
    unfolding emitEventsForCrossTabsStorageUpdate_def Let_def by (simp add: 1 2)
qed

lemma concat_keys:
  assumes "distinct (map fst ts)"
  shows "concat (map (\<lambda>key. g key (map_of ts key)) (map fst ts))
           = concat (map (\<lambda>(key, v). g key (Some v)) ts)"
proof -
  have "map (\<lambda>key. g key (map_of ts key)) (map fst ts) = map (\<lambda>(key, v). g key (Some v)) ts"
    unfolding map_map
  proof (rule map_cong[OF refl])
    fix kv assume m: "kv \<in> set ts"
    have "map_of ts (fst kv) = Some (snd kv)"
      by (rule map_of_is_SomeI[OF assms]) (simp add: m)
    then show "((\<lambda>key. g key (map_of ts key)) \<circ> fst) kv = (case kv of (key, v) \<Rightarrow> g key (Some v))"
      by (cases kv) simp
  qed
  then show ?thesis by (simp only:)
qed

lemma emitEvents_emitted:
  assumes "distinct (map fst (getTokensFromStorageValue sdk new))"
    and "distinct (map fst (getTokensFromStorageValue sdk old))"
  shows "emitted (emitEventsForCrossTabsStorageUpdate sdk st new old) =
     emitted st
     @ addedDiff sdk (getTokensFromStorageValue sdk new) (getTokensFromStorageValue sdk old)
     @ removedDiff (getTokensFromStorageValue sdk new) (getTokensFromStorageValue sdk old)"
proof -
  let ?n = "getTokensFromStorageValue sdk new" and ?o = "getTokensFromStorageValue sdk old"
  have a: "concat (map (\<lambda>key. case map_of ?n key of
                              None \<Rightarrow> []
                            | Some newToken \<Rightarrow>
                               if map_option (jsonStringify sdk) (map_of ?o key)
                                    \<noteq> Some (jsonStringify sdk newToken)
                               then [ADDED key newToken] else [])
          (map fst ?n)) = addedDiff sdk ?n ?o"
    using concat_keys[OF assms(1), where g = "\<lambda>key v. case v of
                              None \<Rightarrow> []
                            | Some newToken \<Rightarrow>
                               if map_option (jsonStringify sdk) (map_of ?o key)
                                    \<noteq> Some (jsonStringify sdk newToken)
                               then [ADDED key newToken] else []"]
    by (simp add: addedDiff_def case_prod_unfold)
  have "map (\<lambda>key. case map_of ?n key of
                              None \<Rightarrow> [REMOVED key (map_of ?o key)]
                            | Some newToken \<Rightarrow> [])
          (map fst ?o)
        = map (\<lambda>(key, v). if map_of ?n key = None then [REMOVED key (Some v)] else []) ?o"
    unfolding map_map
  proof (rule map_cong[OF refl])
    fix kv assume m: "kv \<in> set ?o"
    have "map_of ?o (fst kv) = Some (snd kv)"
      by (rule map_of_is_SomeI[OF assms(2)]) (simp add: m)
    then show "((\<lambda>key. case map_of ?n key of
                              None \<Rightarrow> [REMOVED key (map_of ?o key)]
                            | Some newToken \<Rightarrow> []) \<circ> fst) kv
           = (case kv of (key, v) \<Rightarrow> if map_of ?n key = None then [REMOVED key (Some v)] else [])"
      by (cases kv) (simp split: option.splits)
  qed
  then have "concat (map (\<lambda>key. case map_of ?n key of
                              None \<Rightarrow> [REMOVED key (map_of ?o key)]
                            | Some newToken \<Rightarrow> [])
          (map fst ?o))
        = concat (map (\<lambda>(key, v). if map_of ?n key = None then [REMOVED key (Some v)] else [])
            ?o)"
    by (simp only:)
  also have "\<dots> = removedDiff ?n ?o"
    by (simp add: removedDiff_def case_prod_unfold)
  finally have r: "concat (map (\<lambda>key. case map_of ?n key of
                              None \<Rightarrow> [REMOVED key (map_of ?o key)]
                            | Some newToken \<Rightarrow> [])
          (map fst ?o)) = removedDiff ?n ?o" .
  show ?thesis unfolding emitEvents_emitted_keys a r ..
qed


lemma diff_same:
  assumes "distinct (map fst ts)"
  shows "addedDiff sdk ts ts = []" and "removedDiff ts ts = []"
proof -
  have "map_of ts k = Some v" if "(k, v) \<in> set ts" for k v
    using assms that by (rule map_of_is_SomeI)
  then show "addedDiff sdk ts ts = []" and "removedDiff ts ts = []"
    by (auto simp: addedDiff_def removedDiff_def)
qed

lemma clearAll_emitted: "emitted (clearExpireEventTimeoutAll st) = emitted st"
proof -
  have "emitted (fold (\<lambda>key s. clearExpireEventTimeout s key) ks s) = emitted s" for ks s
    by (induction ks arbitrary: s) (simp_all add: clearExpireEventTimeout_def)
  then show ?thesis by (simp add: clearExpireEventTimeoutAll_def)
qed

lemma setAll_emitted:
  "emitted (setExpireEventTimeoutAll st)
     = emitted st @ (case storageFault st of None \<Rightarrow> [] | Some e \<Rightarrow> [ERROR e])"
proof -
  have "emitted (fold (\<lambda>(key, token) s. setExpireEventTimeout s key token) ts s) = emitted s"
    for ts s
    by (induction ts arbitrary: s)
       (auto simp: setExpireEventTimeout_def clearExpireEventTimeout_def Let_def)
  then show ?thesis
    by (simp add: setExpireEventTimeoutAll_def getStorage_def emitError_def emit_def
        split: option.splits)
qed

lemma reset_emitted:
  "emitted (resetExpireEventTimeoutAll st)
     = emitted st @ (case storageFault st of None \<Rightarrow> [] | Some e \<Rightarrow> [ERROR e])"
  by (simp add: resetExpireEventTimeoutAll_def setAll_emitted clearAll_emitted clearAll_frame)



end
